theory Spec2Isabelle
  imports Complex_Main "HOL-Library.Word"
begin

unbundle bit_operations_syntax

section \<open>The canvas behind a drawing context\<close>

text \<open>
  The drawing functions of \<^verbatim>\<open>primitives.ts\<close> and of the font module never read the
  canvas; all they do to it is assign \<^verbatim>\<open>ctx.fillStyle\<close> and call \<^verbatim>\<open>ctx.fillRect\<close>.
  The 2D context is therefore modelled by its fill style and by the list of the
  rectangles filled so far, oldest first, each with the fill style in force at the call.
  Coordinates, sizes and glyph metrics are JavaScript numbers holding integers; they are
  modelled as \<open>int\<close>. Numbers that are not integers are outside this model.
\<close>

type_synonym Color = string

record CanvasRenderingContext2D =
  fillStyle :: Color
  painted :: "(int \<times> int \<times> int \<times> int \<times> Color) list"

record DrawingContext =
  ctx :: CanvasRenderingContext2D
  canvas_width :: int
  canvas_height :: int

definition ctx_fillRect ::
  "CanvasRenderingContext2D \<Rightarrow> int \<Rightarrow> int \<Rightarrow> int \<Rightarrow> int \<Rightarrow> CanvasRenderingContext2D" where
  "ctx_fillRect c x y w h = c\<lparr>painted := painted c @ [(x, y, w, h, fillStyle c)]\<rparr>"

text \<open>\<^verbatim>\<open>drawPixel\<close>: \<^verbatim>\<open>dc.ctx.fillStyle = color; dc.ctx.fillRect(x, y, 1, 1)\<close>.\<close>

definition drawPixel :: "DrawingContext \<Rightarrow> int \<Rightarrow> int \<Rightarrow> Color \<Rightarrow> DrawingContext" where
  "drawPixel dc x y color = dc\<lparr>ctx := ctx_fillRect ((ctx dc)\<lparr>fillStyle := color\<rparr>) x y 1 1\<rparr>"

text \<open>
  A run of \<^verbatim>\<open>drawPixel\<close> calls with one colour, in the order of the list. The loops
  below are characterised as such runs.
\<close>

definition drawPixels :: "DrawingContext \<Rightarrow> (int \<times> int) list \<Rightarrow> Color \<Rightarrow> DrawingContext" where
  "drawPixels dc ps color = foldl (\<lambda>d (px, py). drawPixel d px py color) dc ps"

section \<open>JavaScript arithmetic used by the decoders\<close>

text \<open>
  \<^verbatim>\<open>a[i]\<close> on a number array: \<open>None\<close> is \<^verbatim>\<open>undefined\<close>, the value of every index that
  is not one of \<open>0 .. length - 1\<close>.
\<close>

definition arrayGet :: "int list \<Rightarrow> int \<Rightarrow> int option" where
  "arrayGet a i = (if 0 \<le> i \<and> i < int (length a) then Some (a ! nat i) else None)"

text \<open>
  \<^verbatim>\<open>v & (1 << s)\<close> taken as a condition. Both operands are converted to 32-bit
  integers (\<^verbatim>\<open>undefined\<close> becomes 0), the shift count is taken modulo 32, and the result
  is truthy when it is not 0.
\<close>

definition toInt32 :: "int option \<Rightarrow> 32 word" where
  "toInt32 v = (case v of None \<Rightarrow> 0 | Some k \<Rightarrow> word_of_int k)"

definition testMask :: "int option \<Rightarrow> int \<Rightarrow> bool" where
  "testMask v s = (toInt32 v AND push_bit (nat (s mod 32)) 1 \<noteq> 0)"

text \<open>\<^verbatim>\<open>a % b\<close>: the remainder has the sign of the dividend.\<close>

definition jsRem :: "int \<Rightarrow> int \<Rightarrow> int" where
  "jsRem a b = sgn a * (\<bar>a\<bar> mod \<bar>b\<bar>)"

text \<open>\<^verbatim>\<open>Math.ceil(w / 8)\<close> on an integer \<open>w\<close>; \<^verbatim>\<open>Math.floor(c / 8)\<close> is \<open>c div 8\<close>.\<close>

definition ceilDiv8 :: "int \<Rightarrow> int" where
  "ceilDiv8 w = - ((- w) div 8)"

section \<open>Additions of the layout engine\<close>

text \<open>
  A JavaScript number is a double: an integer is a number exactly when at most 53
  significant bits write it, and the sum or difference of two numbers is the exact result
  rounded to the nearest number, a tie going to the one with the even significand.
  \<open>excessBits m\<close> is the number of low bits that \<open>m\<close> has beyond 53, and
  \<open>roundDouble n\<close> rounds the integer \<open>n\<close> accordingly; every integer of magnitude up
  to \<open>2 ^ 53\<close> is left as it is. Results of magnitude \<open>2 ^ 1024\<close> or more, which are
  \<^verbatim>\<open>Infinity\<close> in the code, have no counterpart here.

  The layout engine for external fonts adds up advances from different starting values
  in different functions (\<^verbatim>\<open>width += glyph.xAdvance\<close>, \<^verbatim>\<open>cursorX += advance\<close>,
  \<^verbatim>\<open>rightX - textW\<close>, \<^verbatim>\<open>x + Math.floor((width - textW) / 2)\<close>); these additions and
  subtractions are \<open>jsAdd\<close> and \<open>jsSub\<close>. Every other addition of the code is a single
  step from values at hand (a pixel coordinate from the pen position, a byte index, a loop
  counter, the bottom \<^verbatim>\<open>yOffset + height\<close> and the height \<^verbatim>\<open>maxY - minY\<close> of
  \<^verbatim>\<open>getTextBounds\<close>, the built-in font's step of 6) and is written with the exact \<open>+\<close>
  and \<open>-\<close> of \<open>int\<close>, which is what the code computes while the magnitudes stay within
  \<open>2 ^ 53\<close>.
\<close>

function excessBits :: "nat \<Rightarrow> nat" where
  "excessBits m = (if m < 2 ^ 53 then 0 else Suc (excessBits (m div 2)))"
  by pat_completeness auto
termination
  by (relation "measure id") auto

definition roundDouble :: "int \<Rightarrow> int" where
  "roundDouble n =
     (let m = nat \<bar>n\<bar>;
          u = 2 ^ excessBits m;
          q = m div u;
          r = m mod u;
          q' = (if 2 * r < u \<or> (2 * r = u \<and> even q) then q else q + 1)
      in sgn n * int (q' * u))"

definition jsAdd :: "int \<Rightarrow> int \<Rightarrow> int" where
  "jsAdd a b = roundDouble (a + b)"

definition jsSub :: "int \<Rightarrow> int \<Rightarrow> int" where
  "jsSub a b = roundDouble (a - b)"

section \<open>Strings\<close>

text \<open>
  A JavaScript string is a sequence of UTF-16 code units; \<^verbatim>\<open>text.length\<close> counts code
  units. \<^verbatim>\<open>for (const char of text)\<close> walks the string by code points: a high surrogate
  followed by a low surrogate is yielded as one two-unit string, every other code unit
  alone. Each yielded string is non-empty and is given here as its first code unit and
  the rest, so that \<^verbatim>\<open>char.charCodeAt(0)\<close> is the value of the first component.
\<close>

type_synonym jsstring = "16 word list"
type_synonym jschar = "16 word \<times> 16 word list"

definition isHighSurrogate :: "16 word \<Rightarrow> bool" where
  "isHighSurrogate u = (0xD800 \<le> u \<and> u \<le> 0xDBFF)"

definition isLowSurrogate :: "16 word \<Rightarrow> bool" where
  "isLowSurrogate u = (0xDC00 \<le> u \<and> u \<le> 0xDFFF)"

fun stringIterator :: "jsstring \<Rightarrow> jschar list" where
  "stringIterator [] = []"
| "stringIterator [u] = [(u, [])]"
| "stringIterator (u # v # rest) =
     (if isHighSurrogate u \<and> isLowSurrogate v
      then (u, [v]) # stringIterator rest
      else (u, []) # stringIterator (v # rest))"

definition charCodeAt0 :: "jschar \<Rightarrow> int" where
  "charCodeAt0 char = uint (fst char)"

section \<open>Fonts\<close>

record GFXGlyph =
  offset :: int
  glyph_width :: int
  glyph_height :: int
  xAdvance :: int
  xOffset :: int
  yOffset :: int

record GFXFont =
  font_name :: string
  font_bitmap :: "int list"
  glyphs :: "int \<rightharpoonup> GFXGlyph"
  first_code :: int
  last_code :: int
  yAdvance :: int

record TextBounds =
  bounds_w :: int
  bounds_h :: int
  yMin :: int
  yMax :: int

subsection \<open>drawGlyph\<close>

text \<open>The inner loop over the columns of one glyph row; it returns the running bit index too.\<close>

function drawGlyph_cols ::
  "DrawingContext \<Rightarrow> int \<Rightarrow> int \<Rightarrow> GFXGlyph \<Rightarrow> GFXFont \<Rightarrow> Color \<Rightarrow> int \<Rightarrow> int \<Rightarrow> int
     \<Rightarrow> DrawingContext \<times> int" where
  "drawGlyph_cols dc x y glyph font color row col bitIndex =
     (if col < glyph_width glyph then
        (let byteIndex = offset glyph + bitIndex div 8;
             b = 7 - jsRem bitIndex 8;
             dc' = (if testMask (arrayGet (font_bitmap font) byteIndex) b
                    then drawPixel dc (x + xOffset glyph + col) (y + yOffset glyph + row) color
                    else dc)
         in drawGlyph_cols dc' x y glyph font color row (col + 1) (bitIndex + 1))
      else (dc, bitIndex))"
  by pat_completeness auto
termination
  by (relation "measure (\<lambda>(dc, x, y, glyph, font, color, row, col, bitIndex). nat (glyph_width glyph - col))")
     auto

function drawGlyph_rows ::
  "DrawingContext \<Rightarrow> int \<Rightarrow> int \<Rightarrow> GFXGlyph \<Rightarrow> GFXFont \<Rightarrow> Color \<Rightarrow> int \<Rightarrow> int \<Rightarrow> DrawingContext" where
  "drawGlyph_rows dc x y glyph font color row bitIndex =
     (if row < glyph_height glyph then
        (case drawGlyph_cols dc x y glyph font color row 0 bitIndex of
           (dc', bitIndex') \<Rightarrow> drawGlyph_rows dc' x y glyph font color (row + 1) bitIndex')
      else dc)"
  by pat_completeness auto
termination
  by (relation "measure (\<lambda>(dc, x, y, glyph, font, color, row, bitIndex). nat (glyph_height glyph - row))")
     auto

text \<open>The result is the context after drawing and the returned advance.\<close>

definition drawGlyph ::
  "DrawingContext \<Rightarrow> int \<Rightarrow> int \<Rightarrow> int \<Rightarrow> GFXFont \<Rightarrow> Color \<Rightarrow> DrawingContext \<times> int" where
  "drawGlyph dc x y charCode font color =
     (case glyphs font charCode of
        None \<Rightarrow> (dc, 0)
      | Some glyph \<Rightarrow>
          if glyph_width glyph = 0 then (dc, xAdvance glyph)
          else (drawGlyph_rows dc x y glyph font color 0 0, xAdvance glyph))"

subsection \<open>Text layout\<close>

text \<open>The loop of \<^verbatim>\<open>drawText\<close>; its state is the context and \<^verbatim>\<open>cursorX\<close>.\<close>

fun drawText_loop ::
  "DrawingContext \<Rightarrow> jschar list \<Rightarrow> int \<Rightarrow> int \<Rightarrow> GFXFont \<Rightarrow> Color \<Rightarrow> DrawingContext \<times> int" where
  "drawText_loop dc [] cursorX y font color = (dc, cursorX)"
| "drawText_loop dc (char # chars) cursorX y font color =
     (case drawGlyph dc cursorX y (charCodeAt0 char) font color of
        (dc', advance) \<Rightarrow> drawText_loop dc' chars (jsAdd cursorX advance) y font color)"

definition drawText ::
  "DrawingContext \<Rightarrow> jsstring \<Rightarrow> int \<Rightarrow> int \<Rightarrow> GFXFont \<Rightarrow> Color \<Rightarrow> DrawingContext" where
  "drawText dc text x y font color = fst (drawText_loop dc (stringIterator text) x y font color)"

fun getTextWidth_loop :: "GFXFont \<Rightarrow> jschar list \<Rightarrow> int \<Rightarrow> int" where
  "getTextWidth_loop font [] width = width"
| "getTextWidth_loop font (char # chars) width =
     (case glyphs font (charCodeAt0 char) of
        None \<Rightarrow> getTextWidth_loop font chars width
      | Some glyph \<Rightarrow> getTextWidth_loop font chars (jsAdd width (xAdvance glyph)))"

definition getTextWidth :: "jsstring \<Rightarrow> GFXFont \<Rightarrow> int" where
  "getTextWidth text font = getTextWidth_loop font (stringIterator text) 0"

text \<open>The loop of \<^verbatim>\<open>getTextBounds\<close> over \<^verbatim>\<open>width\<close>, \<^verbatim>\<open>minY\<close>, \<^verbatim>\<open>maxY\<close> and \<^verbatim>\<open>first\<close>.\<close>

fun getTextBounds_loop ::
  "GFXFont \<Rightarrow> jschar list \<Rightarrow> int \<times> int \<times> int \<times> bool \<Rightarrow> int \<times> int \<times> int \<times> bool" where
  "getTextBounds_loop font [] st = st"
| "getTextBounds_loop font (char # chars) (width, minY, maxY, first) =
     (case glyphs font (charCodeAt0 char) of
        None \<Rightarrow> getTextBounds_loop font chars (width, minY, maxY, first)
      | Some glyph \<Rightarrow>
          (let width' = jsAdd width (xAdvance glyph);
               top = yOffset glyph;
               bottom = yOffset glyph + glyph_height glyph
           in if first then getTextBounds_loop font chars (width', top, bottom, False)
              else getTextBounds_loop font chars
                     (width',
                      if top < minY then top else minY,
                      if bottom > maxY then bottom else maxY,
                      first)))"

definition getTextBounds :: "jsstring \<Rightarrow> GFXFont \<Rightarrow> TextBounds" where
  "getTextBounds text font =
     (case getTextBounds_loop font (stringIterator text) (0, 0, 0, True) of
        (width, minY, maxY, first) \<Rightarrow> \<lparr>bounds_w = width, bounds_h = maxY - minY, yMin = minY, yMax = maxY\<rparr>)"

definition getGlyph :: "GFXFont \<Rightarrow> int \<Rightarrow> GFXGlyph option" where
  "getGlyph font charCode = glyphs font charCode"

definition hasChar :: "GFXFont \<Rightarrow> int \<Rightarrow> bool" where
  "hasChar font charCode =
     (charCode \<ge> first_code font \<and> charCode \<le> last_code font \<and> glyphs font charCode \<noteq> None)"

definition drawTextCentered ::
  "DrawingContext \<Rightarrow> jsstring \<Rightarrow> int \<Rightarrow> int \<Rightarrow> int \<Rightarrow> GFXFont \<Rightarrow> Color \<Rightarrow> DrawingContext" where
  "drawTextCentered dc text x y width font color =
     (let textW = getTextWidth text font;
          startX = jsAdd x (jsSub width textW div 2)
      in drawText dc text startX y font color)"

definition drawTextRightAligned ::
  "DrawingContext \<Rightarrow> jsstring \<Rightarrow> int \<Rightarrow> int \<Rightarrow> GFXFont \<Rightarrow> Color \<Rightarrow> DrawingContext" where
  "drawTextRightAligned dc text rightX y font color =
     (let textW = getTextWidth text font
      in drawText dc text (jsSub rightX textW) y font color)"

subsection \<open>The built-in 5x7 font\<close>

definition BUILTIN_5X7_FONT :: "int list" where
  "BUILTIN_5X7_FONT =
    [
     0x00, 0x00, 0x00, 0x00, 0x00,
     0x00, 0x00, 0x5F, 0x00, 0x00,
     0x00, 0x07, 0x00, 0x07, 0x00,
     0x14, 0x7F, 0x14, 0x7F, 0x14,
     0x24, 0x2A, 0x7F, 0x2A, 0x12,
     0x23, 0x13, 0x08, 0x64, 0x62,
     0x36, 0x49, 0x55, 0x22, 0x50,
     0x00, 0x05, 0x03, 0x00, 0x00,
     0x00, 0x1C, 0x22, 0x41, 0x00,
     0x00, 0x41, 0x22, 0x1C, 0x00,
     0x08, 0x2A, 0x1C, 0x2A, 0x08,
     0x08, 0x08, 0x3E, 0x08, 0x08,
     0x00, 0x50, 0x30, 0x00, 0x00,
     0x08, 0x08, 0x08, 0x08, 0x08,
     0x00, 0x60, 0x60, 0x00, 0x00,
     0x20, 0x10, 0x08, 0x04, 0x02,
     0x3E, 0x51, 0x49, 0x45, 0x3E,
     0x00, 0x42, 0x7F, 0x40, 0x00,
     0x42, 0x61, 0x51, 0x49, 0x46,
     0x21, 0x41, 0x45, 0x4B, 0x31,
     0x18, 0x14, 0x12, 0x7F, 0x10,
     0x27, 0x45, 0x45, 0x45, 0x39,
     0x3C, 0x4A, 0x49, 0x49, 0x30,
     0x01, 0x71, 0x09, 0x05, 0x03,
     0x36, 0x49, 0x49, 0x49, 0x36,
     0x06, 0x49, 0x49, 0x29, 0x1E,
     0x00, 0x36, 0x36, 0x00, 0x00,
     0x00, 0x56, 0x36, 0x00, 0x00,
     0x00, 0x08, 0x14, 0x22, 0x41,
     0x14, 0x14, 0x14, 0x14, 0x14,
     0x41, 0x22, 0x14, 0x08, 0x00,
     0x02, 0x01, 0x51, 0x09, 0x06,
     0x32, 0x49, 0x79, 0x41, 0x3E,
     0x7E, 0x11, 0x11, 0x11, 0x7E,
     0x7F, 0x49, 0x49, 0x49, 0x36,
     0x3E, 0x41, 0x41, 0x41, 0x22,
     0x7F, 0x41, 0x41, 0x22, 0x1C,
     0x7F, 0x49, 0x49, 0x49, 0x41,
     0x7F, 0x09, 0x09, 0x01, 0x01,
     0x3E, 0x41, 0x41, 0x51, 0x32,
     0x7F, 0x08, 0x08, 0x08, 0x7F,
     0x00, 0x41, 0x7F, 0x41, 0x00,
     0x20, 0x40, 0x41, 0x3F, 0x01,
     0x7F, 0x08, 0x14, 0x22, 0x41,
     0x7F, 0x40, 0x40, 0x40, 0x40,
     0x7F, 0x02, 0x04, 0x02, 0x7F,
     0x7F, 0x04, 0x08, 0x10, 0x7F,
     0x3E, 0x41, 0x41, 0x41, 0x3E,
     0x7F, 0x09, 0x09, 0x09, 0x06,
     0x3E, 0x41, 0x51, 0x21, 0x5E,
     0x7F, 0x09, 0x19, 0x29, 0x46,
     0x46, 0x49, 0x49, 0x49, 0x31,
     0x01, 0x01, 0x7F, 0x01, 0x01,
     0x3F, 0x40, 0x40, 0x40, 0x3F,
     0x1F, 0x20, 0x40, 0x20, 0x1F,
     0x7F, 0x20, 0x18, 0x20, 0x7F,
     0x63, 0x14, 0x08, 0x14, 0x63,
     0x03, 0x04, 0x78, 0x04, 0x03,
     0x61, 0x51, 0x49, 0x45, 0x43,
     0x00, 0x00, 0x7F, 0x41, 0x41,
     0x02, 0x04, 0x08, 0x10, 0x20,
     0x41, 0x41, 0x7F, 0x00, 0x00,
     0x04, 0x02, 0x01, 0x02, 0x04,
     0x40, 0x40, 0x40, 0x40, 0x40,
     0x00, 0x01, 0x02, 0x04, 0x00,
     0x20, 0x54, 0x54, 0x54, 0x78,
     0x7F, 0x48, 0x44, 0x44, 0x38,
     0x38, 0x44, 0x44, 0x44, 0x20,
     0x38, 0x44, 0x44, 0x48, 0x7F,
     0x38, 0x54, 0x54, 0x54, 0x18,
     0x08, 0x7E, 0x09, 0x01, 0x02,
     0x08, 0x14, 0x54, 0x54, 0x3C,
     0x7F, 0x08, 0x04, 0x04, 0x78,
     0x00, 0x44, 0x7D, 0x40, 0x00,
     0x20, 0x40, 0x44, 0x3D, 0x00,
     0x00, 0x7F, 0x10, 0x28, 0x44,
     0x00, 0x41, 0x7F, 0x40, 0x00,
     0x7C, 0x04, 0x18, 0x04, 0x78,
     0x7C, 0x08, 0x04, 0x04, 0x78,
     0x38, 0x44, 0x44, 0x44, 0x38,
     0x7C, 0x14, 0x14, 0x14, 0x08,
     0x08, 0x14, 0x14, 0x18, 0x7C,
     0x7C, 0x08, 0x04, 0x04, 0x08,
     0x48, 0x54, 0x54, 0x54, 0x20,
     0x04, 0x3F, 0x44, 0x40, 0x20,
     0x3C, 0x40, 0x40, 0x20, 0x7C,
     0x1C, 0x20, 0x40, 0x20, 0x1C,
     0x3C, 0x40, 0x30, 0x40, 0x3C,
     0x44, 0x28, 0x10, 0x28, 0x44,
     0x0C, 0x50, 0x50, 0x50, 0x3C,
     0x44, 0x64, 0x54, 0x4C, 0x44,
     0x00, 0x08, 0x36, 0x41, 0x00,
     0x00, 0x00, 0x7F, 0x00, 0x00,
     0x00, 0x41, 0x36, 0x08, 0x00,
     0x08, 0x08, 0x2A, 0x1C, 0x08,
     0x08, 0x1C, 0x2A, 0x08, 0x08
    ]"

function drawBuiltinChar_rows ::
  "DrawingContext \<Rightarrow> int \<Rightarrow> int \<Rightarrow> Color \<Rightarrow> int \<Rightarrow> int option \<Rightarrow> int \<Rightarrow> DrawingContext" where
  "drawBuiltinChar_rows dc x y color col column row =
     (if row < 7 then
        (let dc' = (if testMask column row then drawPixel dc (x + col) (y + row) color else dc)
         in drawBuiltinChar_rows dc' x y color col column (row + 1))
      else dc)"
  by pat_completeness auto
termination
  by (relation "measure (\<lambda>(dc, x, y, color, col, column, row). nat (7 - row))") auto

function drawBuiltinChar_cols ::
  "DrawingContext \<Rightarrow> int \<Rightarrow> int \<Rightarrow> Color \<Rightarrow> int \<Rightarrow> int \<Rightarrow> DrawingContext" where
  "drawBuiltinChar_cols dc x y color index col =
     (if col < 5 then
        (let column = arrayGet BUILTIN_5X7_FONT (index + col)
         in drawBuiltinChar_cols (drawBuiltinChar_rows dc x y color col column 0)
              x y color index (col + 1))
      else dc)"
  by pat_completeness auto
termination
  by (relation "measure (\<lambda>(dc, x, y, color, index, col). nat (5 - col))") auto

text \<open>
  \<^verbatim>\<open>char\<close> is any string. On the empty string \<^verbatim>\<open>charCodeAt(0)\<close> is \<^verbatim>\<open>NaN\<close>: both
  comparisons of the guard are false, every table read is \<^verbatim>\<open>undefined\<close>, and no pixel
  is drawn.
\<close>

definition drawBuiltinChar ::
  "DrawingContext \<Rightarrow> int \<Rightarrow> int \<Rightarrow> jsstring \<Rightarrow> Color \<Rightarrow> DrawingContext" where
  "drawBuiltinChar dc x y char color =
     (case char of
        [] \<Rightarrow> dc
      | u # _ \<Rightarrow>
          (let code = uint u
           in if code < 0x20 \<or> code > 0x7f then dc
              else (let index = (code - 0x20) * 5
                    in drawBuiltinChar_cols dc x y color index 0)))"

fun drawBuiltinText_loop ::
  "DrawingContext \<Rightarrow> jschar list \<Rightarrow> int \<Rightarrow> int \<Rightarrow> Color \<Rightarrow> DrawingContext \<times> int" where
  "drawBuiltinText_loop dc [] cursorX y color = (dc, cursorX)"
| "drawBuiltinText_loop dc (char # chars) cursorX y color =
     drawBuiltinText_loop (drawBuiltinChar dc cursorX y (fst char # snd char) color)
       chars (cursorX + 6) y color"

definition drawBuiltinText ::
  "DrawingContext \<Rightarrow> jsstring \<Rightarrow> int \<Rightarrow> int \<Rightarrow> Color \<Rightarrow> DrawingContext" where
  "drawBuiltinText dc text x y color = fst (drawBuiltinText_loop dc (stringIterator text) x y color)"


section \<open>Packed images\<close>

function drawXBitmap_cols ::
  "DrawingContext \<Rightarrow> int \<Rightarrow> int \<Rightarrow> int list \<Rightarrow> int \<Rightarrow> Color \<Rightarrow> int \<Rightarrow> int \<Rightarrow> int
     \<Rightarrow> DrawingContext" where
  "drawXBitmap_cols dc x y bitmap w color bytesPerRow row col =
     (if col < w then
        (let byteIndex = row * bytesPerRow + col div 8;
             bitIndex = jsRem col 8;
             dc' = (if testMask (arrayGet bitmap byteIndex) bitIndex
                    then drawPixel dc (x + col) (y + row) color
                    else dc)
         in drawXBitmap_cols dc' x y bitmap w color bytesPerRow row (col + 1))
      else dc)"
  by pat_completeness auto
termination
  by (relation "measure (\<lambda>(dc, x, y, bitmap, w, color, bytesPerRow, row, col). nat (w - col))")
     auto

function drawXBitmap_rows ::
  "DrawingContext \<Rightarrow> int \<Rightarrow> int \<Rightarrow> int list \<Rightarrow> int \<Rightarrow> int \<Rightarrow> Color \<Rightarrow> int \<Rightarrow> int
     \<Rightarrow> DrawingContext" where
  "drawXBitmap_rows dc x y bitmap w h color bytesPerRow row =
     (if row < h then
        drawXBitmap_rows (drawXBitmap_cols dc x y bitmap w color bytesPerRow row 0)
          x y bitmap w h color bytesPerRow (row + 1)
      else dc)"
  by pat_completeness auto
termination
  by (relation "measure (\<lambda>(dc, x, y, bitmap, w, h, color, bytesPerRow, row). nat (h - row))")
     auto

definition drawXBitmap ::
  "DrawingContext \<Rightarrow> int \<Rightarrow> int \<Rightarrow> int list \<Rightarrow> int \<Rightarrow> int \<Rightarrow> Color \<Rightarrow> DrawingContext" where
  "drawXBitmap dc x y bitmap w h color =
     (let bytesPerRow = ceilDiv8 w
      in drawXBitmap_rows dc x y bitmap w h color bytesPerRow 0)"

text \<open>
  \<^verbatim>\<open>drawXBitmapScaled\<close> divides and multiplies non-integers. \<^verbatim>\<open>srcW / destW\<close> is modelled
  as the exact quotient, with \<open>None\<close> for the results of a division by zero (\<^verbatim>\<open>Infinity\<close>,
  \<^verbatim>\<open>-Infinity\<close> or \<^verbatim>\<open>NaN\<close>); the rounding of a double is not modelled (there is none when
  \<^verbatim>\<open>destW\<close> divides \<^verbatim>\<open>srcW\<close>, as at scale 1). Where the quotient is rounded, the sampled
  column can be one less than here: scaling a width of 30 to 22, the code samples source
  column 14 for target column 11, and the exact quotient gives 15. A product with a
  non-finite factor is not finite, nor is the byte index computed from it, so that
  \<^verbatim>\<open>bitmap[byteIndex]\<close> is \<^verbatim>\<open>undefined\<close> and the condition is false.
\<close>

definition jsDiv :: "int \<Rightarrow> int \<Rightarrow> rat option" where
  "jsDiv a b = (if b = 0 then None else Some (of_int a / of_int b))"

definition floorMul :: "int \<Rightarrow> rat option \<Rightarrow> int option" where
  "floorMul n scale = (case scale of None \<Rightarrow> None | Some s \<Rightarrow> Some \<lfloor>of_int n * s\<rfloor>)"

function drawXBitmapScaled_cols ::
  "DrawingContext \<Rightarrow> int \<Rightarrow> int \<Rightarrow> int list \<Rightarrow> int \<Rightarrow> Color \<Rightarrow> int \<Rightarrow> rat option \<Rightarrow> rat option
     \<Rightarrow> int \<Rightarrow> int \<Rightarrow> DrawingContext" where
  "drawXBitmapScaled_cols dc x y bitmap destW color bytesPerRow scaleX scaleY destRow destCol =
     (if destCol < destW then
        (let dc' =
           (case (floorMul destCol scaleX, floorMul destRow scaleY) of
              (Some srcCol, Some srcRow) \<Rightarrow>
                (let byteIndex = srcRow * bytesPerRow + srcCol div 8;
                     bitIndex = jsRem srcCol 8
                 in if testMask (arrayGet bitmap byteIndex) bitIndex
                    then drawPixel dc (x + destCol) (y + destRow) color
                    else dc)
            | _ \<Rightarrow> dc)
         in drawXBitmapScaled_cols dc' x y bitmap destW color bytesPerRow scaleX scaleY
              destRow (destCol + 1))
      else dc)"
  by pat_completeness auto
termination
  by (relation "measure (\<lambda>(dc, x, y, bitmap, destW, color, bytesPerRow, scaleX, scaleY, destRow, destCol).
                  nat (destW - destCol))")
     auto

function drawXBitmapScaled_rows ::
  "DrawingContext \<Rightarrow> int \<Rightarrow> int \<Rightarrow> int list \<Rightarrow> int \<Rightarrow> int \<Rightarrow> Color \<Rightarrow> int \<Rightarrow> rat option \<Rightarrow> rat option
     \<Rightarrow> int \<Rightarrow> DrawingContext" where
  "drawXBitmapScaled_rows dc x y bitmap destW destH color bytesPerRow scaleX scaleY destRow =
     (if destRow < destH then
        drawXBitmapScaled_rows
          (drawXBitmapScaled_cols dc x y bitmap destW color bytesPerRow scaleX scaleY destRow 0)
          x y bitmap destW destH color bytesPerRow scaleX scaleY (destRow + 1)
      else dc)"
  by pat_completeness auto
termination
  by (relation "measure (\<lambda>(dc, x, y, bitmap, destW, destH, color, bytesPerRow, scaleX, scaleY, destRow).
                  nat (destH - destRow))")
     auto

definition drawXBitmapScaled ::
  "DrawingContext \<Rightarrow> int \<Rightarrow> int \<Rightarrow> int list \<Rightarrow> int \<Rightarrow> int \<Rightarrow> int \<Rightarrow> int \<Rightarrow> Color \<Rightarrow> DrawingContext" where
  "drawXBitmapScaled dc x y bitmap srcW srcH destW destH color =
     (let bytesPerRow = ceilDiv8 srcW;
          scaleX = jsDiv srcW destW;
          scaleY = jsDiv srcH destH
      in drawXBitmapScaled_rows dc x y bitmap destW destH color bytesPerRow scaleX scaleY 0)"

section \<open>Sample data\<close>

text \<open>A blank 296x128 canvas, and a font with a one-row glyph for \<open>A\<close> and a space.\<close>

definition sampleContext :: DrawingContext where
  "sampleContext =
     \<lparr>ctx = \<lparr>fillStyle = ''#FFFFFF'', painted = []\<rparr>, canvas_width = 296, canvas_height = 128\<rparr>"

definition sampleFont :: GFXFont where
  "sampleFont =
     \<lparr>font_name = ''Sample'',
      font_bitmap = [128],
      glyphs = [65 \<mapsto> \<lparr>offset = 0, glyph_width = 8, glyph_height = 1,
                        xAdvance = 9, xOffset = 1, yOffset = - 7\<rparr>,
                32 \<mapsto> \<lparr>offset = 1, glyph_width = 0, glyph_height = 0,
                        xAdvance = 4, xOffset = 0, yOffset = 0\<rparr>],
      first_code = 32, last_code = 65, yAdvance = 10\<rparr>"

text \<open>A font whose glyph for \<open>B\<close> moves the cursor backwards.\<close>

definition backwardFont :: GFXFont where
  "backwardFont =
     \<lparr>font_name = ''Backward'',
      font_bitmap = [128],
      glyphs = [65 \<mapsto> \<lparr>offset = 0, glyph_width = 1, glyph_height = 1,
                        xAdvance = 1, xOffset = 0, yOffset = 0\<rparr>,
                66 \<mapsto> \<lparr>offset = 0, glyph_width = 0, glyph_height = 0,
                        xAdvance = - 5, xOffset = - 5, yOffset = 0\<rparr>],
      first_code = 65, last_code = 66, yAdvance = 8\<rparr>"

text \<open>The sample font with a declared range that leaves out its glyph for \<open>A\<close>.\<close>

definition strayFont :: GFXFont where
  "strayFont = sampleFont\<lparr>first_code := 66, last_code := 70\<rparr>"

text \<open>
  A font of one-pixel glyphs at the pen position: \<open>A\<close> advances by 1 and \<open>C\<close> by 3. All
  its metrics fit the byte-sized fields of a \<^verbatim>\<open>GFXglyph\<close>.
\<close>

definition unitFont :: GFXFont where
  "unitFont =
     \<lparr>font_name = ''Unit'',
      font_bitmap = [128],
      glyphs = [65 \<mapsto> \<lparr>offset = 0, glyph_width = 1, glyph_height = 1,
                        xAdvance = 1, xOffset = 0, yOffset = 0\<rparr>,
                67 \<mapsto> \<lparr>offset = 0, glyph_width = 1, glyph_height = 1,
                        xAdvance = 3, xOffset = 0, yOffset = 0\<rparr>],
      first_code = 65, last_code = 67, yAdvance = 8\<rparr>"

text \<open>A font whose glyph for \<open>A\<close> advances by \<open>2 ^ 53\<close>.\<close>

definition bigFont :: GFXFont where
  "bigFont =
     \<lparr>font_name = ''Big'',
      font_bitmap = [128],
      glyphs = [65 \<mapsto> \<lparr>offset = 0, glyph_width = 1, glyph_height = 1,
                        xAdvance = 9007199254740992, xOffset = 0, yOffset = 0\<rparr>,
                66 \<mapsto> \<lparr>offset = 0, glyph_width = 1, glyph_height = 1,
                        xAdvance = 1, xOffset = 0, yOffset = 0\<rparr>],
      first_code = 65, last_code = 66, yAdvance = 8\<rparr>"

section \<open>Auxiliary facts\<close>

text \<open>
  \<open>byteBit a k b\<close>: the array \<open>a\<close> has an element at index \<open>k\<close> and bit \<open>b\<close> of it
  is set. This is how the statements below read "bit \<open>b\<close> of \<open>a[k]\<close> is set".
\<close>

definition byteBit :: "int list \<Rightarrow> int \<Rightarrow> nat \<Rightarrow> bool" where
  "byteBit a k b = (0 \<le> k \<and> k < int (length a) \<and> bit (a ! nat k) b)"

text \<open>
  \<open>textPixels font chars cx y\<close>: the pixels of a line of text set with the pen starting
  at \<open>cx\<close> on the baseline \<open>y\<close>. Glyph after glyph, the set bits of the glyph (row by
  row, most significant bit first) are placed at the pen position displaced by the
  glyph's offsets, and the pen moves on by the glyph's \<open>xAdvance\<close>; a character without
  a glyph leaves no pixel and does not move the pen. This is how the statements below
  read "the text is rendered starting at \<open>cx\<close>".
\<close>

fun textPixels :: "GFXFont \<Rightarrow> jschar list \<Rightarrow> int \<Rightarrow> int \<Rightarrow> (int \<times> int) list" where
  "textPixels font [] cx y = []"
| "textPixels font (char # chars) cx y =
     (case glyphs font (charCodeAt0 char) of
        None \<Rightarrow> textPixels font chars cx y
      | Some g \<Rightarrow>
          [(cx + xOffset g + col, y + yOffset g + row).
             row \<leftarrow> [0..glyph_height g - 1], col \<leftarrow> [0..glyph_width g - 1],
             byteBit (font_bitmap font) (offset g + (row * glyph_width g + col) div 8)
               (nat (7 - (row * glyph_width g + col) mod 8))]
          @ textPixels font chars (cx + xAdvance g) y)"

declare excessBits.simps [simp del]
declare drawGlyph_cols.simps [simp del] drawGlyph_rows.simps [simp del]
declare drawXBitmap_cols.simps [simp del] drawXBitmap_rows.simps [simp del]
declare drawXBitmapScaled_cols.simps [simp del] drawXBitmapScaled_rows.simps [simp del]
declare drawBuiltinChar_cols.simps [simp del] drawBuiltinChar_rows.simps [simp del]

lemma testMask_None: "testMask None s = False"
  by (simp add: testMask_def toInt32_def)

lemma testMask_Some:
  assumes "0 \<le> s" "s < 32"
  shows "testMask (Some k) s = bit k (nat s)"
proof -
  have n: "nat (s mod 32) = nat s" "nat s < 32" using assms by auto
  have "(word_of_int k :: 32 word) AND push_bit (nat s) 1 \<noteq> 0
          \<longleftrightarrow> bit (word_of_int k :: 32 word) (nat s)"
    by (simp add: and_exp_eq_0_iff_not_bit)
  also have "\<dots> \<longleftrightarrow> bit k (nat s)"
    using n by (simp add: bit_word_of_int_iff)
  finally show ?thesis by (simp add: testMask_def toInt32_def n)
qed

lemma testMask_arrayGet:
  "0 \<le> s \<Longrightarrow> s < 32 \<Longrightarrow> testMask (arrayGet a k) s = byteBit a k (nat s)"
  by (auto simp add: arrayGet_def byteBit_def testMask_None testMask_Some)

lemma excessBits_small: "m < 2 ^ 53 \<Longrightarrow> excessBits m = 0"
  by (subst excessBits.simps) simp

lemma excessBits_numeral:
  "excessBits (numeral k) =
     (if (numeral k :: nat) < 9007199254740992 then 0 else Suc (excessBits (numeral k div 2)))"
  by (subst excessBits.simps) simp

lemma roundDouble_safe: "\<bar>n\<bar> \<le> 2 ^ 53 \<Longrightarrow> roundDouble n = n"
proof (cases "\<bar>n\<bar> < 2 ^ 53")
  case True
  then have "nat \<bar>n\<bar> < 2 ^ 53"
    by (simp add: nat_less_iff)
  then have "excessBits (nat \<bar>n\<bar>) = 0"
    by (rule excessBits_small)
  then show ?thesis
    by (simp add: roundDouble_def Let_def mult_sgn_abs)
next
  case False
  assume "\<bar>n\<bar> \<le> 2 ^ 53"
  with False have m: "\<bar>n\<bar> = 2 ^ 53"
    by simp
  then have n: "nat \<bar>n\<bar> = 2 ^ 53"
    by (simp add: nat_eq_iff)
  have "excessBits (2 ^ 53) = 1"
    by (subst excessBits.simps) (simp add: excessBits_small)
  then have "roundDouble n = sgn n * 2 ^ 53"
    by (simp add: roundDouble_def n Let_def)
  also have "\<dots> = sgn n * \<bar>n\<bar>"
    by (simp only: m)
  finally show ?thesis
    by (simp add: mult_sgn_abs)
qed

lemma jsAdd_safe: "\<bar>a + b\<bar> \<le> 2 ^ 53 \<Longrightarrow> jsAdd a b = a + b"
  by (simp add: jsAdd_def roundDouble_safe)

lemma jsSub_safe: "\<bar>a - b\<bar> \<le> 2 ^ 53 \<Longrightarrow> jsSub a b = a - b"
  by (simp add: jsSub_def roundDouble_safe)

lemma jsRem_nonneg: "0 \<le> a \<Longrightarrow> jsRem a 8 = a mod 8"
  by (cases "a = 0") (simp_all add: jsRem_def)

lemma ceilDiv8_ceiling: "ceilDiv8 w = \<lceil>(of_int w :: rat) / 8\<rceil>"
proof -
  have "\<lceil>(of_int w :: rat) / 8\<rceil> = - \<lfloor>(of_int (- w) :: rat) / of_int 8\<rfloor>"
    by (simp add: ceiling_def)
  also have "\<dots> = - ((- w) div 8)"
    by (simp only: floor_divide_of_int_eq)
  finally show ?thesis by (simp add: ceilDiv8_def)
qed

lemma drawPixels_Nil: "drawPixels dc [] color = dc"
  by (simp add: drawPixels_def)

lemma drawPixels_Cons:
  "drawPixels dc (p # ps) color = drawPixels (drawPixel dc (fst p) (snd p) color) ps color"
  by (simp add: drawPixels_def split_beta)

lemma drawPixels_append:
  "drawPixels dc (ps @ qs) color = drawPixels (drawPixels dc ps color) qs color"
  by (simp add: drawPixels_def)

lemma painted_drawPixels:
  "painted (ctx (drawPixels dc ps color)) =
     painted (ctx dc) @ map (\<lambda>(px, py). (px, py, 1, 1, color)) ps"
  by (induction ps arbitrary: dc)
     (simp_all add: drawPixels_Nil drawPixels_Cons drawPixel_def ctx_fillRect_def split_beta)

lemma canvas_size_drawPixels:
  "canvas_width (drawPixels dc ps color) = canvas_width dc \<and>
   canvas_height (drawPixels dc ps color) = canvas_height dc"
  by (induction ps arbitrary: dc) (simp_all add: drawPixels_Nil drawPixels_Cons drawPixel_def)

lemma upto_from_0: "0 \<le> j \<Longrightarrow> [0..j] = 0 # [1..j]"
  by (simp add: upto_rec1)

lemma upto_from_1: "1 \<le> j \<Longrightarrow> [1..j] = 1 # [2..j]"
  by (simp add: upto_rec1)

lemma concat_map_Nil: "concat (map (\<lambda>x. []) xs) = []"
  by (induction xs) simp_all

lemma drawXBitmap_cols_eq:
  "0 \<le> col \<Longrightarrow>
   drawXBitmap_cols dc x y bitmap w color bpr row col =
     drawPixels dc
       [(x + c, y + row). c \<leftarrow> [col..w - 1], byteBit bitmap (row * bpr + c div 8) (nat (c mod 8))]
       color"
proof (induction dc x y bitmap w color bpr row col rule: drawXBitmap_cols.induct)
  case (1 dc x y bitmap w color bpr row col)
  show ?case
  proof (cases "col < w")
    case True
    have up: "[col..w - 1] = col # [col + 1..w - 1]"
      using True by (simp add: upto_rec1)
    have rem: "0 \<le> jsRem col 8" "jsRem col 8 < 32" "jsRem col 8 = col mod 8"
      using "1.prems" by (simp_all add: jsRem_nonneg) 
    show ?thesis
      using True "1.prems" "1.IH"
      by (subst drawXBitmap_cols.simps)
         (simp add: up rem testMask_arrayGet drawPixels_Cons Let_def)
  next
    case False
    then show ?thesis
      by (subst drawXBitmap_cols.simps) (simp add: drawPixels_Nil)
  qed
qed

lemma drawXBitmap_rows_eq:
  "drawXBitmap_rows dc x y bitmap w h color bpr row =
     drawPixels dc
       [(x + c, y + r). r \<leftarrow> [row..h - 1], c \<leftarrow> [0..w - 1],
          byteBit bitmap (r * bpr + c div 8) (nat (c mod 8))]
       color"
proof (induction dc x y bitmap w h color bpr row rule: drawXBitmap_rows.induct)
  case (1 dc x y bitmap w h color bpr row)
  show ?case
  proof (cases "row < h")
    case True
    have up: "[row..h - 1] = row # [row + 1..h - 1]"
      using True by (simp add: upto_rec1)
    show ?thesis
      using True "1.IH"
      by (subst drawXBitmap_rows.simps)
         (simp add: up drawXBitmap_cols_eq drawPixels_append)
  next
    case False
    then show ?thesis
      by (subst drawXBitmap_rows.simps) (simp add: drawPixels_Nil)
  qed
qed

lemma floorMul_one: "floorMul n (Some 1) = Some n"
  by (simp add: floorMul_def)

lemma jsDiv_self: "a \<noteq> 0 \<Longrightarrow> jsDiv a a = Some 1"
  by (simp add: jsDiv_def)

lemma drawXBitmapScaled_cols_unit:
  "drawXBitmapScaled_cols dc x y bitmap w color bpr (Some 1) (Some 1) row col =
   drawXBitmap_cols dc x y bitmap w color bpr row col"
proof (induction dc x y bitmap w color bpr row col rule: drawXBitmap_cols.induct)
  case (1 dc x y bitmap w color bpr row col)
  show ?case
  proof (cases "col < w")
    case True
    then show ?thesis
      using "1.IH"
      by (subst drawXBitmapScaled_cols.simps, subst drawXBitmap_cols.simps)
         (simp add: floorMul_one Let_def)
  next
    case False
    then show ?thesis
      by (subst drawXBitmapScaled_cols.simps, subst drawXBitmap_cols.simps) simp
  qed
qed

lemma drawXBitmapScaled_rows_unit:
  "drawXBitmapScaled_rows dc x y bitmap w h color bpr (Some 1) (Some 1) row =
   drawXBitmap_rows dc x y bitmap w h color bpr row"
proof (induction dc x y bitmap w h color bpr row rule: drawXBitmap_rows.induct)
  case (1 dc x y bitmap w h color bpr row)
  show ?case
  proof (cases "row < h")
    case True
    then show ?thesis
      using "1.IH"
      by (subst drawXBitmapScaled_rows.simps, subst drawXBitmap_rows.simps)
         (simp add: drawXBitmapScaled_cols_unit)
  next
    case False
    then show ?thesis
      by (subst drawXBitmapScaled_rows.simps, subst drawXBitmap_rows.simps) simp
  qed
qed

lemma drawXBitmapScaled_cols_none:
  "destW \<le> destCol \<Longrightarrow>
   drawXBitmapScaled_cols dc x y bitmap destW color bpr sx sy destRow destCol = dc"
  by (subst drawXBitmapScaled_cols.simps) simp

lemma drawXBitmapScaled_rows_none:
  "destH \<le> destRow \<Longrightarrow>
   drawXBitmapScaled_rows dc x y bitmap destW destH color bpr sx sy destRow = dc"
  by (subst drawXBitmapScaled_rows.simps) simp

lemma drawXBitmapScaled_rows_no_cols:
  "destW \<le> 0 \<Longrightarrow>
   drawXBitmapScaled_rows dc x y bitmap destW destH color bpr sx sy destRow = dc"
proof (induction dc x y bitmap destW destH color bpr sx sy destRow
       rule: drawXBitmapScaled_rows.induct)
  case (1 dc x y bitmap destW destH color bpr sx sy destRow)
  show ?case
  proof (cases "destRow < destH")
    case True
    then show ?thesis
      using "1.IH" "1.prems"
      by (subst drawXBitmapScaled_rows.simps) (simp add: drawXBitmapScaled_cols_none)
  next
    case False
    then show ?thesis by (simp add: drawXBitmapScaled_rows_none)
  qed
qed

lemma drawGlyph_cols_eq:
  "0 \<le> bi \<Longrightarrow>
   drawGlyph_cols dc x y g f color row col bi =
     (drawPixels dc
        [(x + xOffset g + c, y + yOffset g + row). c \<leftarrow> [col..glyph_width g - 1],
           byteBit (font_bitmap f) (offset g + (bi + (c - col)) div 8)
             (nat (7 - (bi + (c - col)) mod 8))]
        color,
      bi + max 0 (glyph_width g - col))"
proof (induction dc x y g f color row col bi rule: drawGlyph_cols.induct)
  case (1 dc x y g f color row col bi)
  show ?case
  proof (cases "col < glyph_width g")
    case True
    have up: "[col..glyph_width g - 1] = col # [col + 1..glyph_width g - 1]"
      using True by (simp add: upto_rec1)
    have rem: "jsRem bi 8 = bi mod 8" "0 \<le> 7 - bi mod 8" "7 - bi mod 8 < 32"
      using "1.prems" by (simp_all add: jsRem_nonneg)
    have shift: "bi + 1 + (c - (col + 1)) = bi + (c - col)" for c
      by simp
    show ?thesis
      using True "1.prems" "1.IH"
      by (subst drawGlyph_cols.simps)
         (simp add: up rem testMask_arrayGet drawPixels_Cons Let_def shift)
  next
    case False
    then show ?thesis
      by (subst drawGlyph_cols.simps) (simp add: drawPixels_Nil)
  qed
qed

lemma drawGlyph_rows_eq:
  "0 \<le> bi \<Longrightarrow> 0 \<le> glyph_width g \<Longrightarrow>
   drawGlyph_rows dc x y g f color row bi =
     drawPixels dc
       [(x + xOffset g + c, y + yOffset g + r).
          r \<leftarrow> [row..glyph_height g - 1], c \<leftarrow> [0..glyph_width g - 1],
          byteBit (font_bitmap f) (offset g + (bi + (r - row) * glyph_width g + c) div 8)
            (nat (7 - (bi + (r - row) * glyph_width g + c) mod 8))]
       color"
proof (induction dc x y g f color row bi rule: drawGlyph_rows.induct)
  case (1 dc x y g f color row bi)
  show ?case
  proof (cases "row < glyph_height g")
    case True
    have up: "[row..glyph_height g - 1] = row # [row + 1..glyph_height g - 1]"
      using True by (simp add: upto_rec1)
    have shift: "bi + glyph_width g + (r - (row + 1)) * glyph_width g + c
                   = bi + (r - row) * glyph_width g + c" for r c
      by (simp add: algebra_simps)
    define dc1 where "dc1 = fst (drawGlyph_cols dc x y g f color row 0 bi)"
    have cols: "drawGlyph_cols dc x y g f color row 0 bi = (dc1, bi + glyph_width g)"
      using "1.prems" by (simp add: dc1_def drawGlyph_cols_eq)
    have dc1: "dc1 = drawPixels dc
        [(x + xOffset g + c, y + yOffset g + row). c \<leftarrow> [0..glyph_width g - 1],
           byteBit (font_bitmap f) (offset g + (bi + c) div 8) (nat (7 - (bi + c) mod 8))]
        color"
      using "1.prems" by (simp add: dc1_def drawGlyph_cols_eq)
    have IH: "drawGlyph_rows dc1 x y g f color (row + 1) (bi + glyph_width g) =
        drawPixels dc1
          [(x + xOffset g + c, y + yOffset g + r).
             r \<leftarrow> [row + 1..glyph_height g - 1], c \<leftarrow> [0..glyph_width g - 1],
             byteBit (font_bitmap f) (offset g + (bi + (r - row) * glyph_width g + c) div 8)
               (nat (7 - (bi + (r - row) * glyph_width g + c) mod 8))]
          color"
      using "1.IH" [OF True cols [symmetric]] "1.prems" by (simp add: shift)
    have "drawGlyph_rows dc x y g f color row bi =
            drawGlyph_rows dc1 x y g f color (row + 1) (bi + glyph_width g)"
      using True by (subst drawGlyph_rows.simps) (simp add: cols)
    also note IH
    finally show ?thesis
      by (simp add: dc1 up drawPixels_append)
  next
    case False
    then show ?thesis
      by (subst drawGlyph_rows.simps) (simp add: drawPixels_Nil)
  qed
qed

lemma drawGlyph_cols_none:
  "glyph_width g \<le> col \<Longrightarrow> drawGlyph_cols dc x y g f color row col bi = (dc, bi)"
  by (subst drawGlyph_cols.simps) simp

lemma drawGlyph_rows_no_cols:
  "glyph_width g \<le> 0 \<Longrightarrow> drawGlyph_rows dc x y g f color row bi = dc"
proof (induction dc x y g f color row bi rule: drawGlyph_rows.induct)
  case (1 dc x y g f color row bi)
  show ?case
  proof (cases "row < glyph_height g")
    case True
    then show ?thesis
      using "1.IH" "1.prems"
      by (subst drawGlyph_rows.simps) (simp add: drawGlyph_cols_none)
  next
    case False
    then show ?thesis
      by (subst drawGlyph_rows.simps) simp
  qed
qed

lemma drawGlyph_rows_pixels:
  "drawGlyph_rows dc x y g f color 0 0 =
     drawPixels dc
       [(x + xOffset g + c, y + yOffset g + r).
          r \<leftarrow> [0..glyph_height g - 1], c \<leftarrow> [0..glyph_width g - 1],
          byteBit (font_bitmap f) (offset g + (r * glyph_width g + c) div 8)
            (nat (7 - (r * glyph_width g + c) mod 8))]
       color"
proof (cases "0 \<le> glyph_width g")
  case True
  then show ?thesis by (simp add: drawGlyph_rows_eq)
next
  case False
  then show ?thesis by (simp add: drawGlyph_rows_no_cols drawPixels_Nil concat_map_Nil)
qed

lemma drawGlyph_advance:
  "snd (drawGlyph dc x y code font color) =
     (case glyphs font code of None \<Rightarrow> 0 | Some g \<Rightarrow> xAdvance g)"
  by (simp add: drawGlyph_def split: option.split)

lemma drawGlyph_pixels:
  "glyphs font code = Some g \<Longrightarrow>
   drawGlyph dc x y code font color =
     (drawPixels dc
        [(x + xOffset g + c, y + yOffset g + r).
           r \<leftarrow> [0..glyph_height g - 1], c \<leftarrow> [0..glyph_width g - 1],
           byteBit (font_bitmap font) (offset g + (r * glyph_width g + c) div 8)
             (nat (7 - (r * glyph_width g + c) mod 8))]
        color,
      xAdvance g)"
  by (simp add: drawGlyph_def drawGlyph_rows_pixels drawPixels_Nil concat_map_Nil)

lemma drawGlyph_absent:
  "glyphs font code = None \<Longrightarrow> drawGlyph dc x y code font color = (dc, 0)"
  by (simp add: drawGlyph_def)

text \<open>While the running total stays within \<open>2 ^ 53\<close>, the additions of the loops are exact.\<close>

lemma getTextWidth_loop_exact:
  "\<bar>width\<bar> + (\<Sum>char\<leftarrow>chars. case glyphs font (charCodeAt0 char) of
                                  None \<Rightarrow> 0 | Some g \<Rightarrow> \<bar>xAdvance g\<bar>) \<le> 2 ^ 53 \<Longrightarrow>
   getTextWidth_loop font chars width =
     width + (\<Sum>char\<leftarrow>chars. case glyphs font (charCodeAt0 char) of
                                 None \<Rightarrow> 0 | Some g \<Rightarrow> xAdvance g)"
proof (induction chars arbitrary: width)
  case Nil
  show ?case by simp
next
  case (Cons char chars)
  show ?case
  proof (cases "glyphs font (charCodeAt0 char)")
    case None
    then show ?thesis using Cons.IH [of width] Cons.prems by simp
  next
    case (Some g)
    let ?rest = "\<Sum>char\<leftarrow>chars. case glyphs font (charCodeAt0 char) of
                                  None \<Rightarrow> 0 | Some g \<Rightarrow> \<bar>xAdvance g\<bar>"
    have rest: "0 \<le> ?rest"
      by (rule sum_list_nonneg) (auto split: option.split)
    have bound: "\<bar>width\<bar> + \<bar>xAdvance g\<bar> + ?rest \<le> 2 ^ 53"
      using Cons.prems Some by simp
    then have "\<bar>width + xAdvance g\<bar> \<le> 2 ^ 53"
      using rest by linarith
    then have step: "jsAdd width (xAdvance g) = width + xAdvance g"
      by (rule jsAdd_safe)
    have "\<bar>width + xAdvance g\<bar> + ?rest \<le> 2 ^ 53"
      using bound by linarith
    then show ?thesis
      using Cons.IH [of "width + xAdvance g"] Some by (simp add: step)
  qed
qed

lemma drawText_loop_exact:
  "\<bar>cursorX\<bar> + (\<Sum>char\<leftarrow>chars. case glyphs font (charCodeAt0 char) of
                                    None \<Rightarrow> 0 | Some g \<Rightarrow> \<bar>xAdvance g\<bar>) \<le> 2 ^ 53 \<Longrightarrow>
   drawText_loop dc chars cursorX y font color =
     (drawPixels dc (textPixels font chars cursorX y) color,
      cursorX + (\<Sum>char\<leftarrow>chars. case glyphs font (charCodeAt0 char) of
                                     None \<Rightarrow> 0 | Some g \<Rightarrow> xAdvance g))"
proof (induction chars arbitrary: dc cursorX)
  case Nil
  show ?case by (simp add: drawPixels_Nil)
next
  case (Cons char chars)
  show ?case
  proof (cases "glyphs font (charCodeAt0 char)")
    case None
    have "0 \<le> (\<Sum>char\<leftarrow>chars. case glyphs font (charCodeAt0 char) of
                                  None \<Rightarrow> 0 | Some g \<Rightarrow> \<bar>xAdvance g\<bar>)"
      by (rule sum_list_nonneg) (auto split: option.split)
    then have "\<bar>cursorX + 0\<bar> \<le> 2 ^ 53"
      using Cons.prems None by simp
    then have "jsAdd cursorX 0 = cursorX"
      using jsAdd_safe [of cursorX 0] by simp
    then show ?thesis
      using Cons.IH [of cursorX dc] Cons.prems None
      by (simp add: drawGlyph_absent)
  next
    case (Some g)
    let ?rest = "\<Sum>char\<leftarrow>chars. case glyphs font (charCodeAt0 char) of
                                  None \<Rightarrow> 0 | Some g \<Rightarrow> \<bar>xAdvance g\<bar>"
    let ?ink = "[(cursorX + xOffset g + c, y + yOffset g + r).
           r \<leftarrow> [0..glyph_height g - 1], c \<leftarrow> [0..glyph_width g - 1],
           byteBit (font_bitmap font) (offset g + (r * glyph_width g + c) div 8)
             (nat (7 - (r * glyph_width g + c) mod 8))]"
    have rest: "0 \<le> ?rest"
      by (rule sum_list_nonneg) (auto split: option.split)
    have bound: "\<bar>cursorX\<bar> + \<bar>xAdvance g\<bar> + ?rest \<le> 2 ^ 53"
      using Cons.prems Some by simp
    then have "\<bar>cursorX + xAdvance g\<bar> \<le> 2 ^ 53"
      using rest by linarith
    then have step: "jsAdd cursorX (xAdvance g) = cursorX + xAdvance g"
      by (rule jsAdd_safe)
    have "\<bar>cursorX + xAdvance g\<bar> + ?rest \<le> 2 ^ 53"
      using bound by linarith
    then have IH: "drawText_loop (drawPixels dc ?ink color) chars (cursorX + xAdvance g) y font color =
        (drawPixels (drawPixels dc ?ink color) (textPixels font chars (cursorX + xAdvance g) y) color,
         cursorX + xAdvance g +
           (\<Sum>char\<leftarrow>chars. case glyphs font (charCodeAt0 char) of
                                   None \<Rightarrow> 0 | Some g \<Rightarrow> xAdvance g))"
      by (rule Cons.IH)
    show ?thesis
      using Some by (simp add: drawGlyph_pixels [OF Some] step IH drawPixels_append)
  qed
qed

lemma getTextWidth_loop_absent:
  "List.map_filter (\<lambda>char. glyphs font (charCodeAt0 char)) chars = [] \<Longrightarrow>
   getTextWidth_loop font chars width = width"
  by (induction chars) (auto simp add: map_filter_simps split: option.splits)

lemma getTextBounds_loop_later:
  "getTextBounds_loop font chars (width, minY, maxY, False) =
     (let gs = List.map_filter (\<lambda>char. glyphs font (charCodeAt0 char)) chars
      in (getTextWidth_loop font chars width,
          fold min (map yOffset gs) minY,
          fold max (map (\<lambda>g. yOffset g + glyph_height g) gs) maxY,
          False))"
proof (induction chars arbitrary: width minY maxY)
  case Nil
  show ?case by (simp add: map_filter_simps)
next
  case (Cons char chars)
  show ?case
  proof (cases "glyphs font (charCodeAt0 char)")
    case None
    then show ?thesis using Cons.IH by (simp add: map_filter_simps)
  next
    case (Some g)
    have "(if yOffset g < minY then yOffset g else minY) = min (yOffset g) minY"
      and "(if yOffset g + glyph_height g > maxY then yOffset g + glyph_height g else maxY)
             = max (yOffset g + glyph_height g) maxY"
      by (simp_all add: min_def max_def)
    then show ?thesis using Some Cons.IH by (simp add: map_filter_simps Let_def)
  qed
qed

lemma getTextBounds_loop_first:
  "getTextBounds_loop font chars (width, minY, maxY, True) =
     (case List.map_filter (\<lambda>char. glyphs font (charCodeAt0 char)) chars of
        [] \<Rightarrow> (width, minY, maxY, True)
      | g # gs \<Rightarrow>
          (getTextWidth_loop font chars width,
           fold min (map yOffset gs) (yOffset g),
           fold max (map (\<lambda>g. yOffset g + glyph_height g) gs) (yOffset g + glyph_height g),
           False))"
proof (induction chars)
  case Nil
  show ?case by (simp add: map_filter_simps)
next
  case (Cons char chars)
  show ?case
  proof (cases "glyphs font (charCodeAt0 char)")
    case None
    then show ?thesis using Cons.IH by (simp add: map_filter_simps split: list.split)
  next
    case (Some g)
    then show ?thesis
      by (simp add: map_filter_simps getTextBounds_loop_later Let_def)
  qed
qed

text \<open>
  Where no glyph reaches beyond its own advance and no advance is negative, every pixel
  of a line lies left of the end of the line.
\<close>

lemma textPixels_bound:
  assumes font: "\<forall>code g. glyphs font code = Some g \<longrightarrow>
                   xOffset g + glyph_width g \<le> xAdvance g \<and> 0 \<le> xAdvance g"
  shows "\<forall>p \<in> set (textPixels font chars cx y).
           fst p < cx + (\<Sum>char\<leftarrow>chars. case glyphs font (charCodeAt0 char) of
                                          None \<Rightarrow> 0 | Some g \<Rightarrow> xAdvance g)"
proof (induction chars arbitrary: cx)
  case Nil
  show ?case by simp
next
  case (Cons char chars)
  let ?rest = "\<Sum>char\<leftarrow>chars. case glyphs font (charCodeAt0 char) of
                                 None \<Rightarrow> 0 | Some g \<Rightarrow> xAdvance g"
  have nonneg: "0 \<le> (case glyphs font c of None \<Rightarrow> 0 | Some g \<Rightarrow> xAdvance g)" for c
  proof (cases "glyphs font c")
    case None
    then show ?thesis by simp
  next
    case (Some g)
    with font have "0 \<le> xAdvance g" by blast
    with Some show ?thesis by simp
  qed
  have rest: "0 \<le> ?rest"
  proof (rule sum_list_nonneg)
    fix v assume "v \<in> set (map (\<lambda>char. case glyphs font (charCodeAt0 char) of
                                 None \<Rightarrow> 0 | Some g \<Rightarrow> xAdvance g) chars)"
    then obtain char where "v = (case glyphs font (charCodeAt0 char) of
                                 None \<Rightarrow> 0 | Some g \<Rightarrow> xAdvance g)"
      by (auto simp only: set_map)
    then show "0 \<le> v" using nonneg by simp
  qed
  show ?case
  proof (cases "glyphs font (charCodeAt0 char)")
    case None
    then show ?thesis using Cons.IH [of cx] by simp
  next
    case (Some g)
    from font Some have g: "xOffset g + glyph_width g \<le> xAdvance g"
      by blast
    let ?ink = "[(cx + xOffset g + col, y + yOffset g + row).
             row \<leftarrow> [0..glyph_height g - 1], col \<leftarrow> [0..glyph_width g - 1],
             byteBit (font_bitmap font) (offset g + (row * glyph_width g + col) div 8)
               (nat (7 - (row * glyph_width g + col) mod 8))]"
    have "\<forall>p \<in> set ?ink. fst p < cx + xOffset g + glyph_width g"
      by (auto split: if_splits)
    then have ink: "\<forall>p \<in> set ?ink. fst p < cx + xAdvance g + ?rest"
      using g rest by fastforce
    have later: "\<forall>p \<in> set (textPixels font chars (cx + xAdvance g) y).
                   fst p < cx + xAdvance g + ?rest"
      by (rule Cons.IH)
    have eq: "textPixels font (char # chars) cx y =
                ?ink @ textPixels font chars (cx + xAdvance g) y"
      using Some by simp
    have total: "cx + (\<Sum>char\<leftarrow>char # chars. case glyphs font (charCodeAt0 char) of
                                          None \<Rightarrow> 0 | Some g \<Rightarrow> xAdvance g)
                   = cx + xAdvance g + ?rest"
      using Some by simp
    show ?thesis
    proof
      fix p assume "p \<in> set (textPixels font (char # chars) cx y)"
      then have "p \<in> set ?ink \<or> p \<in> set (textPixels font chars (cx + xAdvance g) y)"
        by (simp only: eq set_append Un_iff)
      then have "fst p < cx + xAdvance g + ?rest"
        using ink later by blast
      then show "fst p < cx + (\<Sum>char\<leftarrow>char # chars. case glyphs font (charCodeAt0 char) of
                                          None \<Rightarrow> 0 | Some g \<Rightarrow> xAdvance g)"
        by (simp only: total)
    qed
  qed
qed

lemma abs_sum_advances:
  "\<bar>\<Sum>char\<leftarrow>chars. case glyphs font (charCodeAt0 char) of None \<Rightarrow> 0 | Some g \<Rightarrow> xAdvance g\<bar>
     \<le> (\<Sum>char\<leftarrow>chars. case glyphs font (charCodeAt0 char) of
                            None \<Rightarrow> 0 | Some g \<Rightarrow> \<bar>xAdvance g\<bar>)"
proof (induction chars)
  case Nil
  show ?case by simp
next
  case (Cons char chars)
  show ?case
  proof (cases "glyphs font (charCodeAt0 char)")
    case None
    then show ?thesis using Cons.IH by simp
  next
    case (Some g)
    then show ?thesis using Cons.IH by simp
  qed
qed

lemma sum_abs_advances_nonneg:
  assumes "\<forall>code g. glyphs font code = Some g \<longrightarrow> 0 \<le> xAdvance g"
  shows "(\<Sum>char\<leftarrow>chars. case glyphs font (charCodeAt0 char) of
                            None \<Rightarrow> 0 | Some g \<Rightarrow> \<bar>xAdvance g\<bar>)
         = (\<Sum>char\<leftarrow>chars. case glyphs font (charCodeAt0 char) of
                            None \<Rightarrow> 0 | Some g \<Rightarrow> xAdvance g)"
proof (induction chars)
  case Nil
  show ?case by simp
next
  case (Cons char chars)
  show ?case
  proof (cases "glyphs font (charCodeAt0 char)")
    case None
    then show ?thesis using Cons.IH by simp
  next
    case (Some g)
    with assms have "0 \<le> xAdvance g" by blast
    then show ?thesis using Some Cons.IH by simp
  qed
qed

lemma sum_advances_le_extents:
  "(\<Sum>char\<leftarrow>chars. case glyphs font (charCodeAt0 char) of None \<Rightarrow> 0 | Some g \<Rightarrow> xAdvance g)
     \<le> (\<Sum>char\<leftarrow>chars. case glyphs font (charCodeAt0 char) of
                            None \<Rightarrow> 0 | Some g \<Rightarrow> xAdvance g + \<bar>xOffset g\<bar>)"
  by (rule sum_list_mono) (simp split: option.split)

text \<open>
  With advances that are not negative the pen only moves to the right, and it is enough
  that its first and its last position are within \<open>2 ^ 53\<close>.
\<close>

lemma drawText_loop_exact_nonneg:
  assumes nonneg: "\<forall>code g. glyphs font code = Some g \<longrightarrow> 0 \<le> xAdvance g"
  shows "- (2 ^ 53) \<le> cursorX \<Longrightarrow>
     cursorX + (\<Sum>char\<leftarrow>chars. case glyphs font (charCodeAt0 char) of
                                    None \<Rightarrow> 0 | Some g \<Rightarrow> xAdvance g) \<le> 2 ^ 53 \<Longrightarrow>
     drawText_loop dc chars cursorX y font color =
       (drawPixels dc (textPixels font chars cursorX y) color,
        cursorX + (\<Sum>char\<leftarrow>chars. case glyphs font (charCodeAt0 char) of
                                       None \<Rightarrow> 0 | Some g \<Rightarrow> xAdvance g))"
proof (induction chars arbitrary: dc cursorX)
  case Nil
  show ?case by (simp add: drawPixels_Nil)
next
  case (Cons char chars)
  let ?rest = "\<Sum>char\<leftarrow>chars. case glyphs font (charCodeAt0 char) of
                                 None \<Rightarrow> 0 | Some g \<Rightarrow> xAdvance g"
  have "(\<Sum>char\<leftarrow>chars. case glyphs font (charCodeAt0 char) of
                            None \<Rightarrow> 0 | Some g \<Rightarrow> \<bar>xAdvance g\<bar>) = ?rest"
    by (rule sum_abs_advances_nonneg [OF nonneg])
  moreover have "0 \<le> (\<Sum>char\<leftarrow>chars. case glyphs font (charCodeAt0 char) of
                            None \<Rightarrow> 0 | Some g \<Rightarrow> \<bar>xAdvance g\<bar>)"
    by (rule sum_list_nonneg) (auto split: option.split)
  ultimately have rest: "0 \<le> ?rest"
    by simp
  show ?case
  proof (cases "glyphs font (charCodeAt0 char)")
    case None
    have "\<bar>cursorX + 0\<bar> \<le> 2 ^ 53"
      using Cons.prems None rest by simp
    then have "jsAdd cursorX 0 = cursorX"
      using jsAdd_safe [of cursorX 0] by simp
    then show ?thesis
      using Cons.IH [of cursorX dc] Cons.prems None
      by (simp add: drawGlyph_absent)
  next
    case (Some g)
    let ?ink = "[(cursorX + xOffset g + c, y + yOffset g + r).
           r \<leftarrow> [0..glyph_height g - 1], c \<leftarrow> [0..glyph_width g - 1],
           byteBit (font_bitmap font) (offset g + (r * glyph_width g + c) div 8)
             (nat (7 - (r * glyph_width g + c) mod 8))]"
    from nonneg Some have adv: "0 \<le> xAdvance g"
      by blast
    have upper: "cursorX + xAdvance g + ?rest \<le> 2 ^ 53"
      using Cons.prems Some by simp
    then have "\<bar>cursorX + xAdvance g\<bar> \<le> 2 ^ 53"
      using Cons.prems(1) adv rest by linarith
    then have step: "jsAdd cursorX (xAdvance g) = cursorX + xAdvance g"
      by (rule jsAdd_safe)
    have lower: "- (2 ^ 53) \<le> cursorX + xAdvance g"
      using Cons.prems(1) adv by linarith
    have IH: "drawText_loop (drawPixels dc ?ink color) chars (cursorX + xAdvance g) y font color =
        (drawPixels (drawPixels dc ?ink color) (textPixels font chars (cursorX + xAdvance g) y) color,
         cursorX + xAdvance g + ?rest)"
      using lower upper by (rule Cons.IH)
    show ?thesis
      using Some by (simp add: drawGlyph_pixels [OF Some] step IH drawPixels_append)
  qed
qed



section \<open>The packed-image decoder\<close>

text \<open>
  C3. \<^verbatim>\<open>drawXBitmap\<close> fills, after what was painted before, exactly the 1x1 rectangles at
  \<open>(x + col, y + row)\<close> in \<open>color\<close> for the rows \<open>0 .. h - 1\<close> and columns \<open>0 .. w - 1\<close>
  (row by row, left to right) at which bit \<open>col mod 8\<close> of
  \<open>bytes[row * ceil(w / 8) + floor(col / 8)]\<close> is set: the least significant bit is the
  leftmost pixel. Nothing is painted for a pixel whose bit is not set. With \<open>w = 8\<close>,
  \<open>h = 1\<close> and the single byte \<open>0b00000001\<close> the only pixel drawn is the one of column 0.
\<close>

theorem drawXBitmap_lsb_first:
  "painted (ctx (drawXBitmap dc x y bytes w h color)) =
     painted (ctx dc) @
       [(x + col, y + row, 1, 1, color). row \<leftarrow> [0..h - 1], col \<leftarrow> [0..w - 1],
          byteBit bytes (row * \<lceil>(of_int w :: rat) / 8\<rceil> + col div 8) (nat (col mod 8))]
   \<and> painted (ctx (drawXBitmap dc x y [1] 8 1 color)) = painted (ctx dc) @ [(x, y, 1, 1, color)]"
proof -
  have gen: "painted (ctx (drawXBitmap dc x y bs w' h' color)) =
     painted (ctx dc) @
       [(x + col, y + row, 1, 1, color). row \<leftarrow> [0..h' - 1], col \<leftarrow> [0..w' - 1],
          byteBit bs (row * \<lceil>(of_int w' :: rat) / 8\<rceil> + col div 8) (nat (col mod 8))]"
    for bs w' h'
    by (simp add: drawXBitmap_def drawXBitmap_rows_eq painted_drawPixels ceilDiv8_ceiling
        map_concat comp_def if_distrib [of "map f" for f] cong: if_cong)
  have ex: "painted (ctx (drawXBitmap dc x y [1] 8 1 color)) = painted (ctx dc) @ [(x, y, 1, 1, color)]"
    by (simp add: gen byteBit_def bit_1_iff upto_from_0 upto_from_1)
  show ?thesis using gen ex by blast
qed

text \<open>
  C6. At scale factor 1 the scaled decoder is the unscaled one: for \<open>w > 0\<close> and \<open>h > 0\<close>,
  \<^verbatim>\<open>drawXBitmapScaled(dc, x, y, bytes, w, h, w, h, color)\<close> leaves the drawing context
  in the state in which \<^verbatim>\<open>drawXBitmap(dc, x, y, bytes, w, h, color)\<close> leaves it: the same
  pixels painted, in the same colour and order.
\<close>

theorem drawXBitmapScaled_scale_one:
  "0 < w \<Longrightarrow> 0 < h \<Longrightarrow>
   drawXBitmapScaled dc x y bytes w h w h color = drawXBitmap dc x y bytes w h color"
  by (simp add: drawXBitmapScaled_def drawXBitmap_def jsDiv_self drawXBitmapScaled_rows_unit)

theorem drawXBitmapScaled_scale_one_witness:
  "(0::int) < 3 \<and> (0::int) < 2 \<and>
   drawXBitmapScaled sampleContext 10 20 [5, 2] 3 2 3 2 ''#000000'' =
     drawXBitmap sampleContext 10 20 [5, 2] 3 2 ''#000000'' \<and>
   painted (ctx (drawXBitmapScaled sampleContext 10 20 [5, 2] 3 2 3 2 ''#000000'')) =
     [(10, 20, 1, 1, ''#000000''), (12, 20, 1, 1, ''#000000''), (11, 21, 1, 1, ''#000000'')]"
proof -
  have same: "drawXBitmapScaled sampleContext 10 20 [5, 2] 3 2 3 2 ''#000000'' =
      drawXBitmap sampleContext 10 20 [5, 2] 3 2 ''#000000''"
    using drawXBitmapScaled_scale_one [of 3 2 sampleContext 10 20 "[5, 2]" "''#000000''"]
    by simp
  have "painted (ctx (drawXBitmap sampleContext 10 20 [5, 2] 3 2 ''#000000'')) =
      [(10, 20, 1, 1, ''#000000''), (12, 20, 1, 1, ''#000000''), (11, 21, 1, 1, ''#000000'')]"
    by (simp add: drawXBitmap_def drawXBitmap_rows_eq painted_drawPixels ceilDiv8_def
        byteBit_def sampleContext_def upto_from_0 upto_from_1)
  with same show ?thesis by simp
qed

text \<open>
  C9. When the target width or the target height is zero or negative,
  \<^verbatim>\<open>drawXBitmapScaled\<close> returns the drawing context as it received it: no rectangle is
  filled and the fill style is not assigned. The scale factor of a zero target size is
  the result of a division by zero, and it is never used.
\<close>

theorem drawXBitmapScaled_degenerate:
  "destW \<le> 0 \<or> destH \<le> 0 \<Longrightarrow>
   drawXBitmapScaled dc x y bytes srcW srcH destW destH color = dc
   \<and> (destW = 0 \<longrightarrow> jsDiv srcW destW = None) \<and> (destH = 0 \<longrightarrow> jsDiv srcH destH = None)"
  by (auto simp add: drawXBitmapScaled_def drawXBitmapScaled_rows_none
      drawXBitmapScaled_rows_no_cols jsDiv_def)

theorem drawXBitmapScaled_degenerate_witness:
  "((0::int) \<le> 0 \<or> (5::int) \<le> 0) \<and>
   drawXBitmapScaled sampleContext 0 0 [255] 8 1 0 5 ''#000000'' = sampleContext \<and>
   jsDiv 8 0 = None"
  using drawXBitmapScaled_degenerate [of 0 5 sampleContext 0 0 "[255]" 8 1 "''#000000''"]
  by simp

section \<open>The glyph decoder\<close>

text \<open>
  C2. \<^verbatim>\<open>drawGlyph\<close> on a code without a glyph returns 0 and leaves the context as it
  is. On a code with glyph \<open>g\<close> it returns \<open>xAdvance g\<close>; when \<open>g\<close> has width 0 it
  leaves the context as it is; and in every case it fills, after what was painted before,
  exactly the 1x1 rectangles at \<open>(x + xOffset g + col, y + yOffset g + row)\<close> in \<open>color\<close>
  for the rows \<open>0 .. height - 1\<close> and columns \<open>0 .. width - 1\<close> (row by row, left to
  right) at which bit \<open>7 - i mod 8\<close> of \<open>bitmap[offset g + floor(i / 8)]\<close> is set, where
  \<open>i = row * width + col\<close> is the running bit index: the most significant bit comes
  first. A glyph of width 8, height 1 and offset 0 over the bitmap \<open>[0b10000000]\<close> paints
  the single pixel \<open>(x + xOffset g, y + yOffset g)\<close>.
\<close>

theorem drawGlyph_msb_first:
  "(glyphs font code = None \<longrightarrow> drawGlyph dc x y code font color = (dc, 0)) \<and>
   (\<forall>g. glyphs font code = Some g \<longrightarrow>
      snd (drawGlyph dc x y code font color) = xAdvance g \<and>
      (glyph_width g = 0 \<longrightarrow> fst (drawGlyph dc x y code font color) = dc) \<and>
      painted (ctx (fst (drawGlyph dc x y code font color))) =
        painted (ctx dc) @
          [(x + xOffset g + col, y + yOffset g + row, 1, 1, color).
             row \<leftarrow> [0..glyph_height g - 1], col \<leftarrow> [0..glyph_width g - 1],
             byteBit (font_bitmap font) (offset g + (row * glyph_width g + col) div 8)
               (nat (7 - (row * glyph_width g + col) mod 8))] \<and>
      (glyph_width g = 8 \<and> glyph_height g = 1 \<and> offset g = 0 \<and> font_bitmap font = [128] \<longrightarrow>
         painted (ctx (fst (drawGlyph dc x y code font color))) =
           painted (ctx dc) @ [(x + xOffset g, y + yOffset g, 1, 1, color)]))"
proof (intro conjI allI impI)
  assume "glyphs font code = None"
  then show "drawGlyph dc x y code font color = (dc, 0)"
    by (simp add: drawGlyph_def)
next
  fix g assume g: "glyphs font code = Some g"
  show "snd (drawGlyph dc x y code font color) = xAdvance g"
    using g by (simp add: drawGlyph_def)
  show "fst (drawGlyph dc x y code font color) = dc" if "glyph_width g = 0"
    using g that by (simp add: drawGlyph_def)
  show px: "painted (ctx (fst (drawGlyph dc x y code font color))) =
        painted (ctx dc) @
          [(x + xOffset g + col, y + yOffset g + row, 1, 1, color).
             row \<leftarrow> [0..glyph_height g - 1], col \<leftarrow> [0..glyph_width g - 1],
             byteBit (font_bitmap font) (offset g + (row * glyph_width g + col) div 8)
               (nat (7 - (row * glyph_width g + col) mod 8))]"
    using g
    by (simp add: drawGlyph_def drawGlyph_rows_pixels painted_drawPixels concat_map_Nil
        map_concat comp_def if_distrib [of "map f" for f] cong: if_cong)
  show "painted (ctx (fst (drawGlyph dc x y code font color))) =
           painted (ctx dc) @ [(x + xOffset g, y + yOffset g, 1, 1, color)]"
    if "glyph_width g = 8 \<and> glyph_height g = 1 \<and> offset g = 0 \<and> font_bitmap font = [128]"
    using that by (simp add: px byteBit_def upto_from_0 upto_from_1)
qed

theorem drawGlyph_msb_first_witness:
  "drawGlyph sampleContext 10 20 66 sampleFont ''#000000'' = (sampleContext, 0) \<and>
   drawGlyph sampleContext 10 20 32 sampleFont ''#000000'' = (sampleContext, 4) \<and>
   snd (drawGlyph sampleContext 10 20 65 sampleFont ''#000000'') = 9 \<and>
   painted (ctx (fst (drawGlyph sampleContext 10 20 65 sampleFont ''#000000''))) =
     [(11, 13, 1, 1, ''#000000'')]"
proof -
  let ?A = "\<lparr>offset = 0, glyph_width = 8, glyph_height = 1,
             xAdvance = 9, xOffset = 1, yOffset = - 7\<rparr>"
  let ?S = "\<lparr>offset = 1, glyph_width = 0, glyph_height = 0,
             xAdvance = 4, xOffset = 0, yOffset = 0\<rparr>"
  have absent: "glyphs sampleFont 66 = None"
    and space: "glyphs sampleFont 32 = Some ?S"
    and letter: "glyphs sampleFont 65 = Some ?A"
    and bytes: "font_bitmap sampleFont = [128]"
    by (simp_all add: sampleFont_def)
  have none: "drawGlyph sampleContext 10 20 66 sampleFont ''#000000'' = (sampleContext, 0)"
    using drawGlyph_msb_first [of sampleFont 66 sampleContext 10 20 "''#000000''"] absent
    by blast
  have "snd (drawGlyph sampleContext 10 20 32 sampleFont ''#000000'') = 4 \<and>
        fst (drawGlyph sampleContext 10 20 32 sampleFont ''#000000'') = sampleContext"
    using drawGlyph_msb_first [of sampleFont 32 sampleContext 10 20 "''#000000''",
        THEN conjunct2, rule_format, OF space]
    by simp
  then have blank: "drawGlyph sampleContext 10 20 32 sampleFont ''#000000'' = (sampleContext, 4)"
    by (simp add: prod_eq_iff)
  note A = drawGlyph_msb_first [of sampleFont 65 sampleContext 10 20 "''#000000''",
      THEN conjunct2, rule_format, OF letter]
  have adv: "snd (drawGlyph sampleContext 10 20 65 sampleFont ''#000000'') = 9"
    using A [THEN conjunct1] by simp
  have "painted (ctx (fst (drawGlyph sampleContext 10 20 65 sampleFont ''#000000''))) =
          painted (ctx sampleContext) @ [(10 + xOffset ?A, 20 + yOffset ?A, 1, 1, ''#000000'')]"
    by (rule A [THEN conjunct2, THEN conjunct2, THEN conjunct2, rule_format])
       (simp add: bytes)
  then have ink: "painted (ctx (fst (drawGlyph sampleContext 10 20 65 sampleFont ''#000000''))) =
          [(11, 13, 1, 1, ''#000000'')]"
    by (simp add: sampleContext_def)
  show ?thesis using none blank adv ink by blast
qed

section \<open>Text layout\<close>

text \<open>
  C1 as claimed, for every string, font and starting position, fails: the cursor and the
  width are sums of doubles taken from different starting values. In \<open>unitFont\<close> the text
  \<open>A\<close> has width 1, and drawn from \<open>x = 2 ^ 53\<close> the cursor ends at \<open>2 ^ 53\<close>, a
  displacement of 0.
\<close>

theorem getTextWidth_cursor_rounding:
  "getTextWidth [65] unitFont = 1 \<and>
   snd (drawText_loop sampleContext (stringIterator [65]) 9007199254740992 20 unitFont ''#000000'')
     = 9007199254740992 \<and>
   (9007199254740992 :: int) - 9007199254740992 \<noteq> 1"
proof -
  have A: "glyphs unitFont 65 = Some \<lparr>offset = 0, glyph_width = 1, glyph_height = 1,
              xAdvance = 1, xOffset = 0, yOffset = 0\<rparr>"
    by (simp add: unitFont_def)
  have "getTextWidth [65] unitFont = 1"
    by (simp add: getTextWidth_def charCodeAt0_def A jsAdd_safe)
  moreover have "jsAdd 9007199254740992 1 = 9007199254740992"
    by (simp add: jsAdd_def roundDouble_def excessBits_numeral Let_def)
  then have "snd (drawText_loop sampleContext (stringIterator [65]) 9007199254740992 20
                    unitFont ''#000000'') = 9007199254740992"
    by (simp add: charCodeAt0_def drawGlyph_pixels [OF A])
  ultimately show ?thesis by simp
qed

text \<open>
  C1, as the code has it. Let the starting position \<open>x\<close> and the advances be integers,
  with \<open>|x|\<close> plus the sum of \<open>|xAdvance|\<close> over the characters of \<open>s\<close> that have a glyph at
  most \<open>2 ^ 53\<close>. Then \<^verbatim>\<open>getTextWidth(s, f)\<close> is the sum, over the characters that the
  string iterator yields for \<open>s\<close>, of the \<open>xAdvance\<close> of the character's glyph in \<open>f\<close>, a
  character without a glyph counting 0; and the loop of \<^verbatim>\<open>drawText\<close> started at \<open>x\<close> ends
  with \<^verbatim>\<open>cursorX\<close> at \<open>x\<close> plus that sum, whatever the context, baseline and colour.
\<close>

theorem getTextWidth_is_cursor_displacement:
  assumes "\<bar>x\<bar> + (\<Sum>char\<leftarrow>stringIterator s. case glyphs f (charCodeAt0 char) of
                                               None \<Rightarrow> 0 | Some g \<Rightarrow> \<bar>xAdvance g\<bar>) \<le> 2 ^ 53"
  shows "getTextWidth s f =
           (\<Sum>char\<leftarrow>stringIterator s. case glyphs f (charCodeAt0 char) of
                                            None \<Rightarrow> 0 | Some g \<Rightarrow> xAdvance g) \<and>
         snd (drawText_loop dc (stringIterator s) x y f color) - x = getTextWidth s f"
proof -
  have "\<bar>0::int\<bar> + (\<Sum>char\<leftarrow>stringIterator s. case glyphs f (charCodeAt0 char) of
                                               None \<Rightarrow> 0 | Some g \<Rightarrow> \<bar>xAdvance g\<bar>) \<le> 2 ^ 53"
    using assms by simp
  then have width: "getTextWidth s f =
           (\<Sum>char\<leftarrow>stringIterator s. case glyphs f (charCodeAt0 char) of
                                            None \<Rightarrow> 0 | Some g \<Rightarrow> xAdvance g)"
    unfolding getTextWidth_def by (subst getTextWidth_loop_exact) simp_all
  show ?thesis
    using width by (simp add: drawText_loop_exact [OF assms])
qed

theorem getTextWidth_is_cursor_displacement_witness:
  "getTextWidth [65, 66, 32] sampleFont = 13 \<and>
   snd (drawText_loop sampleContext (stringIterator [65, 66, 32]) 10 20 sampleFont ''#000000'') - 10
     = 13"
proof -
  have chars: "stringIterator [65, 66, 32] = [(65, []), (66, []), (32, [])]"
    by (simp add: isHighSurrogate_def)
  have safe: "\<bar>10::int\<bar> + (\<Sum>char\<leftarrow>stringIterator [65, 66, 32].
                   case glyphs sampleFont (charCodeAt0 char) of
                     None \<Rightarrow> 0 | Some g \<Rightarrow> \<bar>xAdvance g\<bar>) \<le> 2 ^ 53"
    unfolding chars by (simp add: charCodeAt0_def sampleFont_def)
  note T = getTextWidth_is_cursor_displacement
    [OF safe, of sampleContext 20 "''#000000''"]
  have "getTextWidth [65, 66, 32] sampleFont = 13"
    using T [THEN conjunct1] unfolding chars by (simp add: charCodeAt0_def sampleFont_def)
  then show ?thesis
    using T [THEN conjunct2] by simp
qed

text \<open>
  At the advance \<open>2 ^ 53\<close> of \<open>bigFont\<close> the width of \<open>AB\<close> is \<open>2 ^ 53\<close>, drawn from
  \<open>x = 1\<close> its \<open>B\<close> is painted at \<open>2 ^ 53\<close>, and right-aligned at 100 its \<open>B\<close> is
  painted at 100.
\<close>

lemma layout_sums_round:
  "getTextWidth [65, 66] bigFont = 9007199254740992 \<and>
   painted (ctx (drawText sampleContext [65, 66] 1 20 bigFont ''#000000'')) =
     [(1, 20, 1, 1, ''#000000''), (9007199254740992, 20, 1, 1, ''#000000'')] \<and>
   painted (ctx (drawTextRightAligned sampleContext [65, 66] 100 20 bigFont ''#000000'')) =
     [(- 9007199254740892, 20, 1, 1, ''#000000''), (100, 20, 1, 1, ''#000000'')]"
proof -
  have chars: "stringIterator [65, 66] = [(65, []), (66, [])]"
    by (simp add: isHighSurrogate_def)
  have A: "glyphs bigFont 65 = Some \<lparr>offset = 0, glyph_width = 1, glyph_height = 1,
              xAdvance = 9007199254740992, xOffset = 0, yOffset = 0\<rparr>"
    and B: "glyphs bigFont 66 = Some \<lparr>offset = 0, glyph_width = 1, glyph_height = 1,
              xAdvance = 1, xOffset = 0, yOffset = 0\<rparr>"
    and bytes: "font_bitmap bigFont = [128]"
    by (simp_all add: bigFont_def)
  have r1: "jsAdd 9007199254740992 1 = 9007199254740992"
    and r2: "jsAdd 1 9007199254740992 = 9007199254740992"
    by (simp_all add: jsAdd_def roundDouble_def excessBits_numeral Let_def)
  have tw: "getTextWidth [65, 66] bigFont = 9007199254740992"
    unfolding getTextWidth_def chars by (simp add: charCodeAt0_def A B jsAdd_safe r1)
  have left: "painted (ctx (drawText sampleContext [65, 66] 1 20 bigFont ''#000000'')) =
     [(1, 20, 1, 1, ''#000000''), (9007199254740992, 20, 1, 1, ''#000000'')]"
    unfolding drawText_def chars
    by (simp add: charCodeAt0_def drawGlyph_pixels [OF A] drawGlyph_pixels [OF B] bytes r2
        byteBit_def painted_drawPixels sampleContext_def)
  have right: "painted (ctx (drawTextRightAligned sampleContext [65, 66] 100 20 bigFont ''#000000'')) =
     [(- 9007199254740892, 20, 1, 1, ''#000000''), (100, 20, 1, 1, ''#000000'')]"
    unfolding drawTextRightAligned_def drawText_def chars tw Let_def
    by (simp add: charCodeAt0_def drawGlyph_pixels [OF A] drawGlyph_pixels [OF B] bytes
        jsSub_safe jsAdd_safe byteBit_def painted_drawPixels sampleContext_def)
  show ?thesis using tw left right by (intro conjI)
qed

text \<open>
  C7 as claimed, for every position and width, fails: the start position is a rounded
  sum. In \<open>unitFont\<close> the text \<open>A\<close> has width 1; centred in a width of 4 from
  \<open>x = 2 ^ 53\<close> the leftover 3 is odd and \<open>floor(3 / 2) = 1\<close>, yet the glyph is painted
  at \<open>x\<close> itself: the padding on the left is 0.
\<close>

theorem drawTextCentered_rounding:
  "getTextWidth [65] unitFont = 1 \<and>
   odd (4 - 1 :: int) \<and>
   painted (ctx (drawTextCentered sampleContext [65] 9007199254740992 20 4 unitFont ''#000000'')) =
     [(9007199254740992, 20, 1, 1, ''#000000'')] \<and>
   (9007199254740992 :: int) \<noteq> 9007199254740992 + (4 - 1) div 2"
proof -
  have A: "glyphs unitFont 65 = Some \<lparr>offset = 0, glyph_width = 1, glyph_height = 1,
              xAdvance = 1, xOffset = 0, yOffset = 0\<rparr>"
    and bytes: "font_bitmap unitFont = [128]"
    by (simp_all add: unitFont_def)
  have tw: "getTextWidth [65] unitFont = 1"
    by (simp add: getTextWidth_def charCodeAt0_def A jsAdd_safe)
  have start: "jsAdd 9007199254740992 (jsSub 4 1 div 2) = 9007199254740992"
    by (simp add: jsSub_safe) (simp add: jsAdd_def roundDouble_def excessBits_numeral Let_def)
  have "painted (ctx (drawTextCentered sampleContext [65] 9007199254740992 20 4 unitFont
                        ''#000000'')) = [(9007199254740992, 20, 1, 1, ''#000000'')]"
    unfolding drawTextCentered_def drawText_def tw Let_def start
    by (simp add: charCodeAt0_def drawGlyph_pixels [OF A] bytes byteBit_def painted_drawPixels
        sampleContext_def)
  with tw show ?thesis by simp
qed

text \<open>
  C7, as the code has it. Let \<open>x\<close>, \<open>width\<close> and the advances be integers, with \<open>|x|\<close>,
  \<open>|width|\<close> and twice the sum of \<open>|xAdvance|\<close> over the characters of \<open>text\<close> that have a
  glyph adding up to at most \<open>2 ^ 53\<close>, and let \<open>textW\<close> be \<^verbatim>\<open>getTextWidth(text, font)\<close>.
  Then \<^verbatim>\<open>drawTextCentered\<close> paints exactly the pixels of the text set with the pen
  starting at \<open>startX = x + floor((width - textW) / 2)\<close>, the pen ends at
  \<open>startX + textW\<close>, and the padding right of the text, up to \<open>x + width\<close>, is one pixel
  more than the padding \<open>startX - x\<close> left of it when \<open>width - textW\<close> is odd and the same
  when it is even.
\<close>

theorem drawTextCentered_floor:
  assumes "\<bar>x\<bar> + \<bar>width\<bar> +
             2 * (\<Sum>char\<leftarrow>stringIterator text. case glyphs font (charCodeAt0 char) of
                                                 None \<Rightarrow> 0 | Some g \<Rightarrow> \<bar>xAdvance g\<bar>) \<le> 2 ^ 53"
  shows "(let textW = getTextWidth text font;
              startX = x + (width - textW) div 2
          in painted (ctx (drawTextCentered dc text x y width font color)) =
               painted (ctx dc) @
                 map (\<lambda>(px, py). (px, py, 1, 1, color))
                   (textPixels font (stringIterator text) startX y) \<and>
             snd (drawText_loop dc (stringIterator text) startX y font color) = startX + textW \<and>
             (odd (width - textW) \<longrightarrow> (x + width) - (startX + textW) = (startX - x) + 1) \<and>
             (even (width - textW) \<longrightarrow> (x + width) - (startX + textW) = startX - x))"
proof -
  let ?abs = "\<Sum>char\<leftarrow>stringIterator text. case glyphs font (charCodeAt0 char) of
                                          None \<Rightarrow> 0 | Some g \<Rightarrow> \<bar>xAdvance g\<bar>"
  let ?sum = "\<Sum>char\<leftarrow>stringIterator text. case glyphs font (charCodeAt0 char) of
                                          None \<Rightarrow> 0 | Some g \<Rightarrow> xAdvance g"
  let ?d = "width - ?sum"
  let ?start = "x + ?d div 2"
  have abs0: "0 \<le> ?abs"
    by (rule sum_list_nonneg) (auto split: option.split)
  have sum: "\<bar>?sum\<bar> \<le> ?abs"
    by (rule abs_sum_advances)
  have "\<bar>0::int\<bar> + ?abs \<le> 2 ^ 53"
    using assms abs0 by linarith
  then have tw: "getTextWidth text font = ?sum"
    unfolding getTextWidth_def by (subst getTextWidth_loop_exact) simp_all
  have d: "\<bar>?d\<bar> \<le> \<bar>width\<bar> + ?abs"
    using sum by linarith
  then have "\<bar>?d\<bar> \<le> 2 ^ 53"
    using assms abs0 by linarith
  then have sub: "jsSub width ?sum = ?d"
    by (rule jsSub_safe)
  have half: "\<bar>?d div 2\<bar> \<le> \<bar>?d\<bar>"
    by linarith
  then have "\<bar>?start\<bar> \<le> \<bar>x\<bar> + \<bar>width\<bar> + ?abs"
    using d by linarith
  then have start: "\<bar>?start\<bar> + ?abs \<le> 2 ^ 53"
    using assms by linarith
  then have "\<bar>x + ?d div 2\<bar> \<le> 2 ^ 53"
    using abs0 by linarith
  then have add: "jsAdd x (?d div 2) = ?start"
    by (rule jsAdd_safe)
  have loop: "drawText_loop dc (stringIterator text) ?start y font color =
      (drawPixels dc (textPixels font (stringIterator text) ?start y) color, ?start + ?sum)"
    using start by (rule drawText_loop_exact)
  have ink: "painted (ctx (drawTextCentered dc text x y width font color)) =
      painted (ctx dc) @
        map (\<lambda>(px, py). (px, py, 1, 1, color)) (textPixels font (stringIterator text) ?start y)"
    by (simp add: drawTextCentered_def drawText_def tw sub add loop painted_drawPixels)
  have odd: "odd ?d \<Longrightarrow> (x + width) - (?start + ?sum) = (?start - x) + 1"
    and even: "even ?d \<Longrightarrow> (x + width) - (?start + ?sum) = ?start - x"
    by presburger+
  show ?thesis
    unfolding Let_def tw using ink loop odd even by simp
qed

theorem drawTextCentered_floor_witness:
  "getTextWidth [65, 32, 65] sampleFont = 22 \<and>
   odd (41 - 22 :: int) \<and>
   painted (ctx (drawTextCentered sampleContext [65, 32, 65] 10 20 41 sampleFont ''#000000'')) =
     [(20, 13, 1, 1, ''#000000''), (33, 13, 1, 1, ''#000000'')] \<and>
   snd (drawText_loop sampleContext (stringIterator [65, 32, 65]) 19 20 sampleFont ''#000000'') = 41 \<and>
   (10 + 41 :: int) - 41 = (19 - 10) + 1"
proof -
  let ?A = "\<lparr>offset = 0, glyph_width = 8, glyph_height = 1,
             xAdvance = 9, xOffset = 1, yOffset = - 7\<rparr>"
  let ?S = "\<lparr>offset = 1, glyph_width = 0, glyph_height = 0,
             xAdvance = 4, xOffset = 0, yOffset = 0\<rparr>"
  have chars: "stringIterator [65, 32, 65] = [(65, []), (32, []), (65, [])]"
    by (simp add: isHighSurrogate_def)
  have space: "glyphs sampleFont 32 = Some ?S"
    and letter: "glyphs sampleFont 65 = Some ?A"
    and bytes: "font_bitmap sampleFont = [128]"
    by (simp_all add: sampleFont_def)
  have safe: "\<bar>10::int\<bar> + \<bar>41\<bar> +
      2 * (\<Sum>char\<leftarrow>stringIterator [65, 32, 65].
             case glyphs sampleFont (charCodeAt0 char) of
               None \<Rightarrow> 0 | Some g \<Rightarrow> \<bar>xAdvance g\<bar>) \<le> 2 ^ 53"
    unfolding chars by (simp add: charCodeAt0_def space letter)
  have tw: "getTextWidth [65, 32, 65] sampleFont = 22"
    unfolding getTextWidth_def chars by (simp add: charCodeAt0_def space letter jsAdd_safe)
  have pixels: "textPixels sampleFont (stringIterator [65, 32, 65]) 19 20 = [(20, 13), (33, 13)]"
    unfolding chars
    by (simp add: charCodeAt0_def space letter bytes byteBit_def upto_from_0 upto_from_1)
  have blank: "painted (ctx sampleContext) = []"
    by (simp add: sampleContext_def)
  have start: "10 + (41 - 22) div 2 = (19::int)"
    by simp
  note T = drawTextCentered_floor [OF safe, of sampleContext 20 "''#000000''",
      unfolded Let_def tw start]
  have ink: "painted (ctx (drawTextCentered sampleContext [65, 32, 65] 10 20 41 sampleFont
                            ''#000000'')) =
      [(20, 13, 1, 1, ''#000000''), (33, 13, 1, 1, ''#000000'')]"
    using T [THEN conjunct1, unfolded pixels blank] by simp
  have pen: "snd (drawText_loop sampleContext (stringIterator [65, 32, 65]) 19 20 sampleFont
                    ''#000000'') = 41"
    using T [THEN conjunct2, THEN conjunct1] by simp
  have pad: "(10 + 41 :: int) - 41 = (19 - 10) + 1"
    by simp
  show ?thesis
    using tw ink pen pad by simp
qed

text \<open>
  C4. Let \<open>gs\<close> be the glyphs of the characters of \<open>text\<close> that the font has, in order.
  \<^verbatim>\<open>getTextBounds(text, font)\<close> returns \<open>w\<close> equal to \<^verbatim>\<open>getTextWidth(text, font)\<close> and
  \<open>h = yMax - yMin\<close>. If \<open>gs\<close> is empty (in particular for the empty string) the result
  is \<open>{w: 0, h: 0, yMin: 0, yMax: 0}\<close>. Otherwise \<open>yMin\<close> starts as the \<open>yOffset\<close> of the
  first glyph and is lowered by every later glyph with a smaller \<open>yOffset\<close>, and \<open>yMax\<close>
  starts as \<open>yOffset + height\<close> of the first glyph and is raised by every later glyph with
  a larger one; so \<open>yMin\<close> is the least top and \<open>yMax\<close> the greatest bottom of \<open>gs\<close>.
\<close>

theorem getTextBounds_extents:
  "(let gs = List.map_filter (\<lambda>char. glyphs font (charCodeAt0 char)) (stringIterator text);
        b = getTextBounds text font
    in bounds_w b = getTextWidth text font \<and>
       bounds_h b = yMax b - yMin b \<and>
       (case gs of
          [] \<Rightarrow> b = \<lparr>bounds_w = 0, bounds_h = 0, yMin = 0, yMax = 0\<rparr>
        | g # rest \<Rightarrow>
            yMin b = fold min (map yOffset rest) (yOffset g) \<and>
            yMax b = fold max (map (\<lambda>g. yOffset g + glyph_height g) rest)
                       (yOffset g + glyph_height g) \<and>
            yMin b = Min (set (map yOffset gs)) \<and>
            yMax b = Max (set (map (\<lambda>g. yOffset g + glyph_height g) gs))))"
proof -
  define gs where "gs = List.map_filter (\<lambda>char. glyphs font (charCodeAt0 char)) (stringIterator text)"
  show ?thesis
  proof (cases gs)
    case Nil
    then have "getTextWidth text font = 0"
      unfolding gs_def getTextWidth_def by (rule getTextWidth_loop_absent)
    then show ?thesis
      using Nil by (simp add: getTextBounds_def getTextBounds_loop_first gs_def [symmetric])
  next
    case (Cons g rest)
    have "Min (set (map yOffset (g # rest))) = fold min (map yOffset rest) (yOffset g)"
      and "Max (set (map (\<lambda>g. yOffset g + glyph_height g) (g # rest))) =
           fold max (map (\<lambda>g. yOffset g + glyph_height g) rest) (yOffset g + glyph_height g)"
      by (simp_all only: list.map Min.set_eq_fold Max.set_eq_fold)
    then show ?thesis
      using Cons
      by (simp add: getTextBounds_def getTextBounds_loop_first getTextWidth_def
          gs_def [symmetric])
  qed
qed

theorem getTextBounds_extents_witness:
  "getTextBounds [65, 66, 32] sampleFont = \<lparr>bounds_w = 13, bounds_h = 7, yMin = - 7, yMax = 0\<rparr> \<and>
   getTextBounds [] sampleFont = \<lparr>bounds_w = 0, bounds_h = 0, yMin = 0, yMax = 0\<rparr> \<and>
   getTextBounds [66] sampleFont = \<lparr>bounds_w = 0, bounds_h = 0, yMin = 0, yMax = 0\<rparr>"
proof -
  have chars: "stringIterator [65, 66, 32] = [(65, []), (66, []), (32, [])]"
    by (simp add: isHighSurrogate_def)
  have tw: "getTextWidth [65, 66, 32] sampleFont = 13"
    unfolding getTextWidth_def chars by (simp add: charCodeAt0_def sampleFont_def jsAdd_safe)
  have "bounds_w (getTextBounds [65, 66, 32] sampleFont) = 13 \<and>
        bounds_h (getTextBounds [65, 66, 32] sampleFont) = 7 \<and>
        yMin (getTextBounds [65, 66, 32] sampleFont) = - 7 \<and>
        yMax (getTextBounds [65, 66, 32] sampleFont) = 0"
    using getTextBounds_extents [of sampleFont "[65, 66, 32]"]
    unfolding chars Let_def tw
    by (simp add: map_filter_simps charCodeAt0_def sampleFont_def)
  then have full: "getTextBounds [65, 66, 32] sampleFont =
      \<lparr>bounds_w = 13, bounds_h = 7, yMin = - 7, yMax = 0\<rparr>"
    by (cases "getTextBounds [65, 66, 32] sampleFont") simp
  have empty: "getTextBounds [] sampleFont = \<lparr>bounds_w = 0, bounds_h = 0, yMin = 0, yMax = 0\<rparr>"
    using getTextBounds_extents [of sampleFont "[]"]
    by (simp add: map_filter_simps Let_def)
  have absent: "getTextBounds [66] sampleFont = \<lparr>bounds_w = 0, bounds_h = 0, yMin = 0, yMax = 0\<rparr>"
    using getTextBounds_extents [of sampleFont "[66]"]
    by (simp add: map_filter_simps charCodeAt0_def sampleFont_def Let_def)
  show ?thesis using full empty absent by blast
qed

text \<open>
  C8 as claimed, for every right edge, fails: the start position \<open>rightX - textW\<close> and
  the cursor are rounded sums. In \<open>unitFont\<close>, whose glyphs satisfy
  \<open>xOffset + width \<le> xAdvance\<close>, the text \<open>CCCCCCC\<close> has width 21; right-aligned at
  \<open>rightX = 2 ^ 54\<close> its pen starts at \<open>2 ^ 54 - 20\<close> and moves by 4 at each glyph, so that
  the sixth \<open>C\<close> is painted at \<open>2 ^ 54\<close> and the seventh at \<open>2 ^ 54 + 4\<close>.
\<close>

theorem drawTextRightAligned_rounding_overshoot:
  "glyphs unitFont =
     [65 \<mapsto> \<lparr>offset = 0, glyph_width = 1, glyph_height = 1,
              xAdvance = 1, xOffset = 0, yOffset = 0\<rparr>,
      67 \<mapsto> \<lparr>offset = 0, glyph_width = 1, glyph_height = 1,
              xAdvance = 3, xOffset = 0, yOffset = 0\<rparr>] \<and>
   (0::int) + 1 \<le> 1 \<and> (0::int) + 1 \<le> 3 \<and>
   painted (ctx (drawTextRightAligned sampleContext [67, 67, 67, 67, 67, 67, 67]
                   18014398509481984 20 unitFont ''#000000'')) =
     [(18014398509481964, 20, 1, 1, ''#000000''), (18014398509481968, 20, 1, 1, ''#000000''),
      (18014398509481972, 20, 1, 1, ''#000000''), (18014398509481976, 20, 1, 1, ''#000000''),
      (18014398509481980, 20, 1, 1, ''#000000''), (18014398509481984, 20, 1, 1, ''#000000''),
      (18014398509481988, 20, 1, 1, ''#000000'')] \<and>
   \<not> (18014398509481988 :: int) \<le> 18014398509481984 - 1"
proof -
  have chars: "stringIterator [67, 67, 67, 67, 67, 67, 67] =
      [(67, []), (67, []), (67, []), (67, []), (67, []), (67, []), (67, [])]"
    by (simp add: isHighSurrogate_def)
  have C: "glyphs unitFont 67 = Some \<lparr>offset = 0, glyph_width = 1, glyph_height = 1,
              xAdvance = 3, xOffset = 0, yOffset = 0\<rparr>"
    and bytes: "font_bitmap unitFont = [128]"
    by (simp_all add: unitFont_def)
  have tw: "getTextWidth [67, 67, 67, 67, 67, 67, 67] unitFont = 21"
    unfolding getTextWidth_def chars by (simp add: charCodeAt0_def C jsAdd_safe)
  have start: "jsSub 18014398509481984 21 = 18014398509481964"
    by (simp add: jsSub_def roundDouble_def excessBits_numeral Let_def)
  have steps:
    "jsAdd 18014398509481964 3 = 18014398509481968"
    "jsAdd 18014398509481968 3 = 18014398509481972"
    "jsAdd 18014398509481972 3 = 18014398509481976"
    "jsAdd 18014398509481976 3 = 18014398509481980"
    "jsAdd 18014398509481980 3 = 18014398509481984"
    "jsAdd 18014398509481984 3 = 18014398509481988"
    "jsAdd 18014398509481988 3 = 18014398509481992"
    by (simp_all add: jsAdd_def roundDouble_def excessBits_numeral Let_def)
  have "painted (ctx (drawTextRightAligned sampleContext [67, 67, 67, 67, 67, 67, 67]
                   18014398509481984 20 unitFont ''#000000'')) =
     [(18014398509481964, 20, 1, 1, ''#000000''), (18014398509481968, 20, 1, 1, ''#000000''),
      (18014398509481972, 20, 1, 1, ''#000000''), (18014398509481976, 20, 1, 1, ''#000000''),
      (18014398509481980, 20, 1, 1, ''#000000''), (18014398509481984, 20, 1, 1, ''#000000''),
      (18014398509481988, 20, 1, 1, ''#000000'')]"
    unfolding drawTextRightAligned_def drawText_def chars tw Let_def start
    by (simp add: charCodeAt0_def drawGlyph_pixels [OF C] bytes steps byteBit_def
        painted_drawPixels drawPixels_append [symmetric] sampleContext_def)
  then show ?thesis by (simp add: unitFont_def)
qed

text \<open>
  Nor does the claim hold in a font with a negative advance, which the type of
  \<^verbatim>\<open>xAdvance\<close>, a number, admits: in \<open>backwardFont\<close> both glyphs satisfy
  \<open>xOffset + width \<le> xAdvance\<close>, the text \<open>AB\<close> has width \<open>-4\<close>, and right-aligned at 100
  its \<open>A\<close> is painted at \<open>x = 104\<close>.
\<close>

lemma drawTextRightAligned_overshoot:
  "glyphs backwardFont =
     [65 \<mapsto> \<lparr>offset = 0, glyph_width = 1, glyph_height = 1,
              xAdvance = 1, xOffset = 0, yOffset = 0\<rparr>,
      66 \<mapsto> \<lparr>offset = 0, glyph_width = 0, glyph_height = 0,
              xAdvance = - 5, xOffset = - 5, yOffset = 0\<rparr>] \<and>
   (0::int) + 1 \<le> 1 \<and> (- 5::int) + 0 \<le> - 5 \<and>
   painted (ctx (drawTextRightAligned sampleContext [65, 66] 100 20 backwardFont ''#000000'')) =
     [(104, 20, 1, 1, ''#000000'')] \<and>
   \<not> (104::int) \<le> 100 - 1"
proof -
  have chars: "stringIterator [65, 66] = [(65, []), (66, [])]"
    by (simp add: isHighSurrogate_def)
  have A: "glyphs backwardFont 65 = Some \<lparr>offset = 0, glyph_width = 1, glyph_height = 1,
              xAdvance = 1, xOffset = 0, yOffset = 0\<rparr>"
    and B: "glyphs backwardFont 66 = Some \<lparr>offset = 0, glyph_width = 0, glyph_height = 0,
              xAdvance = - 5, xOffset = - 5, yOffset = 0\<rparr>"
    and bytes: "font_bitmap backwardFont = [128]"
    by (simp_all add: backwardFont_def)
  have tw: "getTextWidth [65, 66] backwardFont = - 4"
    unfolding getTextWidth_def chars by (simp add: charCodeAt0_def A B jsAdd_safe)
  have "painted (ctx (drawTextRightAligned sampleContext [65, 66] 100 20 backwardFont ''#000000''))
          = [(104, 20, 1, 1, ''#000000'')]"
    unfolding drawTextRightAligned_def drawText_def chars tw Let_def
    by (simp add: charCodeAt0_def drawGlyph_pixels [OF A] drawGlyph_pixels [OF B] bytes
        jsSub_safe jsAdd_safe byteBit_def painted_drawPixels drawPixels_Nil sampleContext_def)
  then show ?thesis by (simp add: backwardFont_def)
qed

text \<open>
  C8, as the code has it. Let every glyph of the font satisfy
  \<open>xOffset + width \<le> xAdvance\<close> and have an \<open>xAdvance\<close> that is not negative, and let
  \<open>rightX\<close> and the glyph metrics be integers, with \<open>|rightX|\<close> plus the sum of
  \<open>xAdvance + |xOffset|\<close> over the characters of \<open>text\<close> that have a glyph at most
  \<open>2 ^ 53\<close>. Then \<^verbatim>\<open>drawTextRightAligned(dc, text, rightX, y, font, color)\<close> paints exactly
  the pixels of the text set with the pen starting at \<open>rightX - textW\<close>, where \<open>textW\<close> is
  \<^verbatim>\<open>getTextWidth(text, font)\<close>, and each of them has an x-coordinate of at most
  \<open>rightX - 1\<close>.
\<close>

theorem drawTextRightAligned_within_right_edge:
  assumes font: "\<forall>code g. glyphs font code = Some g \<longrightarrow>
                   xOffset g + glyph_width g \<le> xAdvance g \<and> 0 \<le> xAdvance g"
    and safe: "\<bar>rightX\<bar> +
                 (\<Sum>char\<leftarrow>stringIterator text. case glyphs font (charCodeAt0 char) of
                      None \<Rightarrow> 0 | Some g \<Rightarrow> xAdvance g + \<bar>xOffset g\<bar>) \<le> 2 ^ 53"
  shows "painted (ctx (drawTextRightAligned dc text rightX y font color)) =
           painted (ctx dc) @
             map (\<lambda>(px, py). (px, py, 1, 1, color))
               (textPixels font (stringIterator text) (rightX - getTextWidth text font) y) \<and>
         (\<forall>(px, py) \<in> set (textPixels font (stringIterator text)
                              (rightX - getTextWidth text font) y).
            px \<le> rightX - 1)"
proof -
  let ?sum = "\<Sum>char\<leftarrow>stringIterator text. case glyphs font (charCodeAt0 char) of
                                          None \<Rightarrow> 0 | Some g \<Rightarrow> xAdvance g"
  let ?abs = "\<Sum>char\<leftarrow>stringIterator text. case glyphs font (charCodeAt0 char) of
                                          None \<Rightarrow> 0 | Some g \<Rightarrow> \<bar>xAdvance g\<bar>"
  have nonneg: "\<forall>code g. glyphs font code = Some g \<longrightarrow> 0 \<le> xAdvance g"
    using font by blast
  have abs: "?abs = ?sum"
    by (rule sum_abs_advances_nonneg [OF nonneg])
  have "0 \<le> ?abs"
    by (rule sum_list_nonneg) (auto split: option.split)
  then have sum0: "0 \<le> ?sum"
    by (simp only: abs)
  have bound: "\<bar>rightX\<bar> + ?sum \<le> 2 ^ 53"
    using safe sum_advances_le_extents [of font "stringIterator text"] by linarith
  then have "\<bar>0::int\<bar> + ?abs \<le> 2 ^ 53"
    unfolding abs by linarith
  then have tw: "getTextWidth text font = ?sum"
    unfolding getTextWidth_def by (subst getTextWidth_loop_exact) simp_all
  have "\<bar>rightX - ?sum\<bar> \<le> 2 ^ 53"
    using bound sum0 by linarith
  then have sub: "jsSub rightX ?sum = rightX - ?sum"
    by (rule jsSub_safe)
  have lower: "- (2 ^ 53) \<le> rightX - ?sum"
    using bound by linarith
  have upper: "rightX - ?sum + ?sum \<le> 2 ^ 53"
    using bound sum0 by linarith
  have loop: "drawText_loop dc (stringIterator text) (rightX - ?sum) y font color =
      (drawPixels dc (textPixels font (stringIterator text) (rightX - ?sum) y) color,
       rightX - ?sum + ?sum)"
    using lower upper by (rule drawText_loop_exact_nonneg [OF nonneg])
  have ink: "painted (ctx (drawTextRightAligned dc text rightX y font color)) =
           painted (ctx dc) @
             map (\<lambda>(px, py). (px, py, 1, 1, color))
               (textPixels font (stringIterator text) (rightX - ?sum) y)"
    by (simp add: drawTextRightAligned_def drawText_def tw sub loop painted_drawPixels)
  have "\<forall>p \<in> set (textPixels font (stringIterator text) (rightX - ?sum) y).
          fst p < rightX - ?sum + ?sum"
    by (rule textPixels_bound [OF font])
  then have "\<forall>p \<in> set (textPixels font (stringIterator text) (rightX - ?sum) y).
               fst p \<le> rightX - 1"
    by simp
  then have edge: "\<forall>(px, py) \<in> set (textPixels font (stringIterator text) (rightX - ?sum) y).
               px \<le> rightX - 1"
    by (simp add: split_beta)
  show ?thesis
    unfolding tw using ink edge by (rule conjI)
qed

theorem drawTextRightAligned_within_right_edge_witness:
  "painted (ctx (drawTextRightAligned sampleContext [65, 32, 65] 100 20 sampleFont ''#000000'')) =
     [(79, 13, 1, 1, ''#000000''), (92, 13, 1, 1, ''#000000'')] \<and>
   (79::int) \<le> 100 - 1 \<and> (92::int) \<le> 100 - 1"
proof -
  let ?A = "\<lparr>offset = 0, glyph_width = 8, glyph_height = 1,
             xAdvance = 9, xOffset = 1, yOffset = - 7\<rparr>"
  let ?S = "\<lparr>offset = 1, glyph_width = 0, glyph_height = 0,
             xAdvance = 4, xOffset = 0, yOffset = 0\<rparr>"
  have font: "\<forall>code g. glyphs sampleFont code = Some g \<longrightarrow>
                xOffset g + glyph_width g \<le> xAdvance g \<and> 0 \<le> xAdvance g"
    by (auto simp add: sampleFont_def split: if_splits)
  have chars: "stringIterator [65, 32, 65] = [(65, []), (32, []), (65, [])]"
    by (simp add: isHighSurrogate_def)
  have space: "glyphs sampleFont 32 = Some ?S"
    and letter: "glyphs sampleFont 65 = Some ?A"
    and bytes: "font_bitmap sampleFont = [128]"
    by (simp_all add: sampleFont_def)
  have safe: "\<bar>100::int\<bar> +
      (\<Sum>char\<leftarrow>stringIterator [65, 32, 65].
         case glyphs sampleFont (charCodeAt0 char) of
           None \<Rightarrow> 0 | Some g \<Rightarrow> xAdvance g + \<bar>xOffset g\<bar>) \<le> 2 ^ 53"
    unfolding chars by (simp add: charCodeAt0_def space letter)
  have tw: "getTextWidth [65, 32, 65] sampleFont = 22"
    unfolding getTextWidth_def chars by (simp add: charCodeAt0_def space letter jsAdd_safe)
  have start: "100 - 22 = (78::int)"
    by simp
  have pixels: "textPixels sampleFont (stringIterator [65, 32, 65]) 78 20 = [(79, 13), (92, 13)]"
    unfolding chars
    by (simp add: charCodeAt0_def space letter bytes byteBit_def upto_from_0 upto_from_1)
  have blank: "painted (ctx sampleContext) = []"
    by (simp add: sampleContext_def)
  note T = drawTextRightAligned_within_right_edge
    [OF font safe, of sampleContext 20 "''#000000''", unfolded tw start pixels blank]
  have ink: "painted (ctx (drawTextRightAligned sampleContext [65, 32, 65] 100 20 sampleFont
                            ''#000000'')) =
      [(79, 13, 1, 1, ''#000000''), (92, 13, 1, 1, ''#000000'')]"
    using T [THEN conjunct1] by simp
  have "(79::int) \<le> 100 - 1 \<and> (92::int) \<le> 100 - 1"
    using T [THEN conjunct2] by simp
  with ink show ?thesis by (rule conjI)
qed

section \<open>The built-in font\<close>



section \<open>The declared range of a font\<close>

text \<open>
  C10. \<^verbatim>\<open>hasChar(font, code)\<close> holds exactly when \<open>first \<le> code \<le> last\<close> and the font has
  a glyph at \<open>code\<close>. For a glyph \<open>g\<close> stored at a code outside \<open>[first, last]\<close>,
  \<^verbatim>\<open>hasChar\<close> is false while \<^verbatim>\<open>getGlyph\<close> returns \<open>g\<close>, and \<^verbatim>\<open>drawGlyph\<close> returns
  \<open>xAdvance g\<close> and draws what it draws for the same font with the range set to contain
  the code (where \<^verbatim>\<open>hasChar\<close> is true): the range is not consulted. \<^verbatim>\<open>drawText\<close> on the
  one-character string of that code draws the glyph and adds \<open>xAdvance g\<close> to the cursor.
\<close>

theorem hasChar_range_not_used_for_rendering:
  "(hasChar font code \<longleftrightarrow>
      first_code font \<le> code \<and> code \<le> last_code font \<and> glyphs font code \<noteq> None) \<and>
   (\<forall>g. glyphs font code = Some g \<and> (code < first_code font \<or> last_code font < code) \<longrightarrow>
      \<not> hasChar font code \<and>
      getGlyph font code = Some g \<and>
      snd (drawGlyph dc x y code font color) = xAdvance g \<and>
      hasChar (font\<lparr>first_code := code, last_code := code\<rparr>) code \<and>
      drawGlyph dc x y code font color =
        drawGlyph dc x y code (font\<lparr>first_code := code, last_code := code\<rparr>) color \<and>
      (\<forall>u. uint u = code \<longrightarrow>
         drawText_loop dc (stringIterator [u]) x y font color =
           (fst (drawGlyph dc x y code font color), jsAdd x (xAdvance g))))"
proof -
  have range_free: "drawGlyph dc x y code font color =
      drawGlyph dc x y code (font\<lparr>first_code := a, last_code := b\<rparr>) color" for a b
    by (simp add: drawGlyph_def drawGlyph_rows_pixels split: option.split)
  have iff: "hasChar font code \<longleftrightarrow>
      first_code font \<le> code \<and> code \<le> last_code font \<and> glyphs font code \<noteq> None"
    by (simp add: hasChar_def)
  have outside: "\<not> hasChar font code \<and>
      getGlyph font code = Some g \<and>
      snd (drawGlyph dc x y code font color) = xAdvance g \<and>
      hasChar (font\<lparr>first_code := code, last_code := code\<rparr>) code \<and>
      drawGlyph dc x y code font color =
        drawGlyph dc x y code (font\<lparr>first_code := code, last_code := code\<rparr>) color \<and>
      (\<forall>u. uint u = code \<longrightarrow>
         drawText_loop dc (stringIterator [u]) x y font color =
           (fst (drawGlyph dc x y code font color), jsAdd x (xAdvance g)))"
    if g: "glyphs font code = Some g"
      and out: "code < first_code font \<or> last_code font < code" for g
  proof (intro conjI allI impI)
    show "\<not> hasChar font code"
      using out by (auto simp add: hasChar_def)
    show "getGlyph font code = Some g"
      using g by (simp add: getGlyph_def)
    show adv: "snd (drawGlyph dc x y code font color) = xAdvance g"
      using g by (simp add: drawGlyph_advance)
    show "hasChar (font\<lparr>first_code := code, last_code := code\<rparr>) code"
      using g by (simp add: hasChar_def)
    show "drawGlyph dc x y code font color =
        drawGlyph dc x y code (font\<lparr>first_code := code, last_code := code\<rparr>) color"
      by (rule range_free)
    fix u :: "16 word"
    assume "uint u = code"
    then show "drawText_loop dc (stringIterator [u]) x y font color =
           (fst (drawGlyph dc x y code font color), jsAdd x (xAdvance g))"
      using adv by (auto simp add: charCodeAt0_def split: prod.split)
  qed
  show ?thesis
    using iff outside by blast
qed

theorem hasChar_range_not_used_for_rendering_witness:
  "glyphs strayFont 65 =
     Some \<lparr>offset = 0, glyph_width = 8, glyph_height = 1, xAdvance = 9, xOffset = 1, yOffset = - 7\<rparr> \<and>
   (65 < first_code strayFont \<or> last_code strayFont < 65) \<and>
   \<not> hasChar strayFont 65 \<and>
   getGlyph strayFont 65 =
     Some \<lparr>offset = 0, glyph_width = 8, glyph_height = 1, xAdvance = 9, xOffset = 1, yOffset = - 7\<rparr> \<and>
   snd (drawGlyph sampleContext 10 20 65 strayFont ''#000000'') = 9 \<and>
   drawText_loop sampleContext (stringIterator [65]) 10 20 strayFont ''#000000'' =
     (fst (drawGlyph sampleContext 10 20 65 strayFont ''#000000''), 19) \<and>
   painted (ctx (fst (drawGlyph sampleContext 10 20 65 strayFont ''#000000''))) =
     [(11, 13, 1, 1, ''#000000'')]"
proof -
  let ?A = "\<lparr>offset = 0, glyph_width = 8, glyph_height = 1,
             xAdvance = 9, xOffset = 1, yOffset = - 7\<rparr>"
  have letter: "glyphs strayFont 65 = Some ?A"
    and outside: "65 < first_code strayFont \<or> last_code strayFont < 65"
    and bytes: "font_bitmap strayFont = [128]"
    by (simp_all add: strayFont_def sampleFont_def)
  note T = hasChar_range_not_used_for_rendering
    [of strayFont 65 sampleContext 10 20 "''#000000''", THEN conjunct2, rule_format,
     OF conjI [OF letter outside]]
  have no: "\<not> hasChar strayFont 65"
    by (rule T [THEN conjunct1])
  have get: "getGlyph strayFont 65 = Some ?A"
    by (rule T [THEN conjunct2, THEN conjunct1])
  have adv: "snd (drawGlyph sampleContext 10 20 65 strayFont ''#000000'') = 9"
    using T [THEN conjunct2, THEN conjunct2, THEN conjunct1] by simp
  have line: "drawText_loop sampleContext (stringIterator [65]) 10 20 strayFont ''#000000'' =
     (fst (drawGlyph sampleContext 10 20 65 strayFont ''#000000''), 19)"
    using T [THEN conjunct2, THEN conjunct2, THEN conjunct2, THEN conjunct2, THEN conjunct2,
        rule_format, of 65]
    by (simp add: jsAdd_safe)
  have ink: "painted (ctx (fst (drawGlyph sampleContext 10 20 65 strayFont ''#000000''))) =
     [(11, 13, 1, 1, ''#000000'')]"
    by (simp add: drawGlyph_pixels [OF letter] bytes byteBit_def painted_drawPixels
        sampleContext_def upto_from_0 upto_from_1)
  show ?thesis
    using letter outside no get adv line ink by (intro conjI)
qed

end
